theory Spec2Isabelle
  imports Main "HOL-Library.AList" "HOL-Library.Multiset"
begin

section \<open>Data model\<close>

text \<open>
  The exceptions the two scripts can run into. \<open>KeyError\<close> carries the missing key;
  \<open>JSONDecodeError\<close> is what \<^verbatim>\<open>json.loads\<close> raises on a malformed line, \<open>OSError\<close> what
  \<^verbatim>\<open>open\<close> raises, \<open>ValueError\<close> what \<^verbatim>\<open>datetime.strptime\<close> and lxml raise on a
  string they reject, \<open>AttributeError\<close> what \<^verbatim>\<open>None.split()\<close> raises.
\<close>

datatype error =
    KeyError string
  | TypeError
  | ValueError
  | AttributeError
  | JSONDecodeError
  | OSError

text \<open>
  A value produced by \<^verbatim>\<open>json.loads\<close>. A Python \<^verbatim>\<open>dict\<close> is an association list read
  with \<open>map_of\<close>; a Python \<^verbatim>\<open>str\<close> is a \<open>string\<close>, its characters read as the code
  points 0 to 255. Numbers are the integers (\<^verbatim>\<open>id\<close> is one); JSON numbers with a
  fraction or an exponent are outside the model.
\<close>

datatype json =
    JNull
  | JBool bool
  | JInt int
  | JStr string
  | JArr "json list"
  | JObj "(string \<times> json) list"

text \<open>An lxml element: tag, attributes in insertion order, \<^verbatim>\<open>.text\<close> and children.\<close>

datatype xml =
  Elem (tag: string) (attrib: "(string \<times> string) list") (etext: "string option")
       (children: "xml list")

text \<open>
  The fields of a \<^verbatim>\<open>TweetCollection\<close>. \<open>parsed_tweets\<close> is the generator made by
  \<^verbatim>\<open>json_reader\<close>: the items it has not produced yet, each being what opening the file
  and \<^verbatim>\<open>json.loads\<close> give for that line, \<open>Inl\<close> when they raise.
\<close>

record tweet_collection =
  tweet_ids :: "json set"
  xml_root :: xml
  parsed_tweets :: "(error + json) list"
  output_tweets :: "xml list"

text \<open>
  The file system as far as \<^verbatim>\<open>write_xml\<close> touches it: the contents of the files, and
  the paths \<^verbatim>\<open>open(path, 'w')\<close> succeeds on.
\<close>

record filesystem =
  files :: "string \<rightharpoonup> string"
  writable :: "string \<Rightarrow> bool"

section \<open>Python and lxml primitives\<close>

definition bind_err :: "error + 'a \<Rightarrow> ('a \<Rightarrow> error + 'b) \<Rightarrow> error + 'b" where
  "bind_err r f = (case r of Inl e \<Rightarrow> Inl e | Inr x \<Rightarrow> f x)"

text \<open>\<^verbatim>\<open>d[k]\<close> with a string key: only a dict can be subscripted that way.\<close>

fun getitem :: "json \<Rightarrow> string \<Rightarrow> error + json" where
  "getitem (JObj d) k = (case map_of d k of None \<Rightarrow> Inl (KeyError k) | Some v \<Rightarrow> Inr v)"
| "getitem _ k = Inl TypeError"

text \<open>
  \<^verbatim>\<open>k in d\<close>. Both uses in \<^verbatim>\<open>add_tweet\<close> come after \<^verbatim>\<open>tweet_dict["id"]\<close> has
  succeeded, so the operand is a dict there.
\<close>

fun has_key :: "json \<Rightarrow> string \<Rightarrow> bool" where
  "has_key (JObj d) k = (map_of d k \<noteq> None)"
| "has_key _ k = False"

text \<open>
  The element of a Python \<^verbatim>\<open>set\<close> that a value is stored as: lists and dicts are
  unhashable, and \<^verbatim>\<open>True == 1\<close>, \<^verbatim>\<open>False == 0\<close> make a bool the same member as the
  integer.
\<close>

fun hash_key :: "json \<Rightarrow> error + json" where
  "hash_key (JArr xs) = Inl TypeError"
| "hash_key (JObj d) = Inl TypeError"
| "hash_key (JBool b) = Inr (JInt (if b then 1 else 0))"
| "hash_key v = Inr v"

text \<open>Truth value of \<^verbatim>\<open>if x:\<close>.\<close>

fun truthy :: "json \<Rightarrow> bool" where
  "truthy JNull = False"
| "truthy (JBool b) = b"
| "truthy (JInt n) = (n \<noteq> 0)"
| "truthy (JStr s) = (s \<noteq> [])"
| "truthy (JArr xs) = (xs \<noteq> [])"
| "truthy (JObj d) = (d \<noteq> [])"

text \<open>
  \<^verbatim>\<open>for x in v\<close>: a list gives its items, a dict its keys, a string its characters;
  nothing else is iterable.
\<close>

fun py_iter :: "json \<Rightarrow> error + json list" where
  "py_iter (JArr xs) = Inr xs"
| "py_iter (JObj d) = Inr (map JStr (remdups (map fst d)))"
| "py_iter (JStr s) = Inr (map (\<lambda>c. JStr [c]) s)"
| "py_iter _ = Inl TypeError"

text \<open>
  lxml accepts a string only when XML can hold it: no NUL and no control character
  other than tab, line feed and carriage return.
\<close>

definition xml_compatible :: "string \<Rightarrow> bool" where
  "xml_compatible s = list_all (\<lambda>c. 32 \<le> (of_char c :: nat) \<or> of_char c \<in> {9, 10, 13 :: nat}) s"

text \<open>The value of \<^verbatim>\<open>elem.set(name, v)\<close>: a string, or \<^verbatim>\<open>TypeError\<close>.\<close>

fun xml_attr :: "json \<Rightarrow> error + string" where
  "xml_attr (JStr s) = (if xml_compatible s then Inr s else Inl ValueError)"
| "xml_attr _ = Inl TypeError"

text \<open>The value of \<^verbatim>\<open>elem.text = v\<close>: a string or \<^verbatim>\<open>None\<close>.\<close>

fun xml_text :: "json \<Rightarrow> error + string option" where
  "xml_text JNull = Inr None"
| "xml_text (JStr s) = (if xml_compatible s then Inr (Some s) else Inl ValueError)"
| "xml_text _ = Inl TypeError"

definition set_attr :: "string \<Rightarrow> string \<Rightarrow> xml \<Rightarrow> xml" where
  "set_attr k v e = Elem (tag e) (AList.update k v (attrib e)) (etext e) (children e)"

definition append_child :: "xml \<Rightarrow> xml \<Rightarrow> xml" where
  "append_child parent c = Elem (tag parent) (attrib parent) (etext parent) (children parent @ [c])"

text \<open>\<^verbatim>\<open>elem.attrib[k]\<close>.\<close>

definition attrib_get :: "xml \<Rightarrow> string \<Rightarrow> error + string" where
  "attrib_get e k = (case map_of (attrib e) k of None \<Rightarrow> Inl (KeyError k) | Some v \<Rightarrow> Inr v)"

section \<open>TweetCollection\<close>

text \<open>
  \<^verbatim>\<open>__init__\<close>: an empty id set, an empty \<^verbatim>\<open><tweets>\<close> root, the generator over the
  input and an empty list.
\<close>

definition init :: "(error + json) list \<Rightarrow> tweet_collection" where
  "init input_json =
     \<lparr>tweet_ids = {}, xml_root = Elem ''tweets'' [] None [],
      parsed_tweets = input_json, output_tweets = []\<rparr>"

text \<open>
  \<^verbatim>\<open>add_user\<close>. The \<^verbatim>\<open><user>\<close> element hangs under the parent from the moment
  \<^verbatim>\<open>SubElement\<close> makes it, so an exception leaves it there as far as it got. The
  functions on elements return the parent as the call leaves it, with the exception
  if there is one.
\<close>

definition add_user :: "xml \<Rightarrow> json \<Rightarrow> xml \<times> error option" where
  "add_user parent_elem user_dict =
     (let user_elem = Elem ''user'' [] None [] in
      case bind_err (getitem user_dict ''screen_name'') xml_attr of
        Inl e \<Rightarrow> (append_child parent_elem user_elem, Some e)
      | Inr sn \<Rightarrow>
          let user_elem = set_attr ''screen_name'' sn user_elem in
          case bind_err (getitem user_dict ''id_str'') xml_attr of
            Inl e \<Rightarrow> (append_child parent_elem user_elem, Some e)
          | Inr i \<Rightarrow> (append_child parent_elem (set_attr ''id'' i user_elem), None))"

text \<open>The three loops of \<^verbatim>\<open>add_details\<close>, each over the items already iterated.\<close>

fun add_hashtags :: "xml \<Rightarrow> json list \<Rightarrow> xml \<times> error option" where
  "add_hashtags details_elem [] = (details_elem, None)"
| "add_hashtags details_elem (hashtag # rest) =
     (case bind_err (getitem hashtag ''text'') xml_text of
        Inl e \<Rightarrow> (append_child details_elem (Elem ''hashtag'' [] None []), Some e)
      | Inr t \<Rightarrow> add_hashtags (append_child details_elem (Elem ''hashtag'' [] t [])) rest)"

fun add_mentions :: "xml \<Rightarrow> json list \<Rightarrow> xml \<times> error option" where
  "add_mentions mentions_elem [] = (mentions_elem, None)"
| "add_mentions mentions_elem (mentioned_user # rest) =
     (case add_user mentions_elem mentioned_user of
        (m, Some e) \<Rightarrow> (m, Some e)
      | (m, None) \<Rightarrow> add_mentions m rest)"

fun add_urls :: "xml \<Rightarrow> json list \<Rightarrow> xml \<times> error option" where
  "add_urls details_elem [] = (details_elem, None)"
| "add_urls details_elem (url # rest) =
     (case bind_err (getitem url ''expanded_url'') xml_text of
        Inl e \<Rightarrow> (append_child details_elem (Elem ''url'' [] None []), Some e)
      | Inr t \<Rightarrow> add_urls (append_child details_elem (Elem ''url'' [] t [])) rest)"

text \<open>
  The entities dict \<^verbatim>\<open>add_details\<close> reads: the one under \<^verbatim>\<open>extended_tweet\<close> when
  \<^verbatim>\<open>truncated\<close> is true, the top-level one otherwise.
\<close>

definition entities_dict :: "json \<Rightarrow> error + json" where
  "entities_dict tweet_dict =
     bind_err (getitem tweet_dict ''truncated'') (\<lambda>t.
       if truthy t then bind_err (getitem tweet_dict ''extended_tweet'') (\<lambda>x. getitem x ''entities'')
       else getitem tweet_dict ''entities'')"

text \<open>
  Lines 116 to 127 of \<^verbatim>\<open>add_details\<close>: the hashtags, the \<^verbatim>\<open><user_mentions>\<close>
  container with its users and the urls of \<^verbatim>\<open>entities_dict\<close>, added to the
  \<^verbatim>\<open><details>\<close> element.
\<close>

definition fill_entities :: "xml \<Rightarrow> json \<Rightarrow> xml \<times> error option" where
  "fill_entities details_elem ents =
     (case bind_err (getitem ents ''hashtags'') py_iter of
        Inl e \<Rightarrow> (details_elem, Some e)
      | Inr hs \<Rightarrow>
     (case add_hashtags details_elem hs of
        (d1, Some e) \<Rightarrow> (d1, Some e)
      | (d1, None) \<Rightarrow>
     (let mentions_elem = Elem ''user_mentions'' [] None [] in
      case bind_err (getitem ents ''user_mentions'') py_iter of
        Inl e \<Rightarrow> (append_child d1 mentions_elem, Some e)
      | Inr ms \<Rightarrow>
     (case add_mentions mentions_elem ms of
        (m, Some e) \<Rightarrow> (append_child d1 m, Some e)
      | (m, None) \<Rightarrow>
     (let d2 = append_child d1 m in
      case bind_err (getitem ents ''urls'') py_iter of
        Inl e \<Rightarrow> (d2, Some e)
      | Inr us \<Rightarrow> add_urls d2 us)))))"

text \<open>
  What \<^verbatim>\<open>add_details\<close> does to the \<^verbatim>\<open><details>\<close> element once it exists: the author,
  then the entities of the dict it selects.
\<close>

definition fill_details :: "xml \<Rightarrow> json \<Rightarrow> xml \<times> error option" where
  "fill_details details_elem tweet_dict =
     (case getitem tweet_dict ''user'' of
        Inl e \<Rightarrow> (details_elem, Some e)
      | Inr u \<Rightarrow>
     (case add_user details_elem u of
        (d1, Some e) \<Rightarrow> (d1, Some e)
      | (d1, None) \<Rightarrow>
     (case entities_dict tweet_dict of
        Inl e \<Rightarrow> (d1, Some e)
      | Inr ents \<Rightarrow> fill_entities d1 ents)))"

definition add_details :: "xml \<Rightarrow> json \<Rightarrow> xml \<times> error option" where
  "add_details parent_elem tweet_dict =
     (case fill_details (Elem ''details'' [] None []) tweet_dict of
        (d, r) \<Rightarrow> (append_child parent_elem d, r))"

text \<open>
  The text \<^verbatim>\<open>add_tweet\<close> puts in \<^verbatim>\<open><body>\<close>: \<^verbatim>\<open>extended_tweet.full_text\<close> when
  \<^verbatim>\<open>truncated\<close> is true, \<^verbatim>\<open>text\<close> otherwise.
\<close>

definition tweet_text :: "json \<Rightarrow> error + json" where
  "tweet_text tweet_dict =
     bind_err (getitem tweet_dict ''truncated'') (\<lambda>t.
       if truthy t then bind_err (getitem tweet_dict ''extended_tweet'') (\<lambda>x. getitem x ''full_text'')
       else getitem tweet_dict ''text'')"

text \<open>
  \<^verbatim>\<open>tweet_elem\<close> is the object at index \<open>n\<close> of \<^verbatim>\<open>output_tweets\<close> from the moment it
  is appended; what the code does to it afterwards is done to that list entry.
\<close>

definition upd_elem :: "nat \<Rightarrow> (xml \<Rightarrow> xml) \<Rightarrow> tweet_collection \<Rightarrow> tweet_collection" where
  "upd_elem n f st = st\<lparr>output_tweets := (output_tweets st)[n := f (output_tweets st ! n)]\<rparr>"

text \<open>
  Lines 58 to 63 of \<^verbatim>\<open>add_tweet\<close>: a new \<^verbatim>\<open><tweet>\<close> element goes to the end of
  \<^verbatim>\<open>output_tweets\<close>, then gets its \<^verbatim>\<open>id\<close> and \<^verbatim>\<open>created_at\<close>.
\<close>

definition create_tweet :: "json \<Rightarrow> tweet_collection \<Rightarrow> tweet_collection \<times> error option" where
  "create_tweet tweet_dict st =
     (let n = length (output_tweets st);
          st1 = st\<lparr>output_tweets := output_tweets st @ [Elem ''tweet'' [] None []]\<rparr>
      in
      (case bind_err (getitem tweet_dict ''id_str'') xml_attr of
         Inl e \<Rightarrow> (st1, Some e)
       | Inr i \<Rightarrow>
           let st2 = upd_elem n (set_attr ''id'' i) st1 in
           (case bind_err (getitem tweet_dict ''created_at'') xml_attr of
              Inl e \<Rightarrow> (st2, Some e)
            | Inr c \<Rightarrow> (upd_elem n (set_attr ''created_at'' c) st2, None))))"

text \<open>Lines 68 to 80 of \<^verbatim>\<open>add_tweet\<close>: the body and the details of the element at \<open>n\<close>.\<close>

definition finish_tweet :: "nat \<Rightarrow> json \<Rightarrow> tweet_collection \<Rightarrow> tweet_collection \<times> error option" where
  "finish_tweet n tweet_dict st =
     (case bind_err (tweet_text tweet_dict) xml_text of
        Inl e \<Rightarrow> (upd_elem n (\<lambda>t. append_child t (Elem ''body'' [] None [])) st, Some e)
      | Inr txt \<Rightarrow>
          let st1 = upd_elem n (\<lambda>t. append_child t (Elem ''body'' [] txt [])) st in
          (case add_details (output_tweets st1 ! n) tweet_dict of
             (t, r) \<Rightarrow> (st1\<lparr>output_tweets := (output_tweets st1)[n := t]\<rparr>, r)))"

lemma size_map_of:
  "map_of d k = Some v \<Longrightarrow> size v < Suc (size_list (size_prod (\<lambda>_. 0) size) d)"
  by (induction d) (auto split: if_splits)

lemma size_getitem: "getitem tw k = Inr v \<Longrightarrow> size v < size tw"
  by (cases tw) (auto split: option.splits dest: size_map_of)

text \<open>
  \<^verbatim>\<open>add_tweet\<close>. The result is the collection as the call leaves it and the exception,
  if one was raised. \<open>n\<close> is where \<^verbatim>\<open>tweet_elem\<close> sits in \<^verbatim>\<open>output_tweets\<close>.
\<close>

function add_tweet :: "json \<Rightarrow> tweet_collection \<Rightarrow> tweet_collection \<times> error option" where
  "add_tweet tweet_dict st =
     (case bind_err (getitem tweet_dict ''id'') hash_key of
        Inl e \<Rightarrow> (st, Some e)
      | Inr k \<Rightarrow>
          if k \<in> tweet_ids st then (st, None)
          else
            let st1 = st\<lparr>tweet_ids := insert k (tweet_ids st)\<rparr> in
            if has_key tweet_dict ''retweeted_status'' then
              (case getitem tweet_dict ''retweeted_status'' of
                 Inl e \<Rightarrow> (st1, Some e)
               | Inr rt \<Rightarrow> add_tweet rt st1)
            else
              let n = length (output_tweets st1) in
              (case create_tweet tweet_dict st1 of
                 (st2, Some e) \<Rightarrow> (st2, Some e)
               | (st2, None) \<Rightarrow>
                   if has_key tweet_dict ''quoted_status'' then
                     (case getitem tweet_dict ''quoted_status'' of
                        Inl e \<Rightarrow> (st2, Some e)
                      | Inr q \<Rightarrow>
                          (case bind_err (getitem q ''id_str'') xml_attr of
                             Inl e \<Rightarrow> (st2, Some e)
                           | Inr qi \<Rightarrow>
                               (case add_tweet q (upd_elem n (set_attr ''quoted_from'' qi) st2) of
                                  (st3, Some e) \<Rightarrow> (st3, Some e)
                                | (st3, None) \<Rightarrow> finish_tweet n tweet_dict st3)))
                   else finish_tweet n tweet_dict st2))"
  by pat_completeness auto
termination
  by (relation "measure (\<lambda>(tw, st). size tw)") (auto dest: size_getitem)

declare add_tweet.simps [simp del]

text \<open>
  The loop of \<^verbatim>\<open>write_xml\<close> over the generator. Each round takes the next item off
  the generator; an item that raises ends the generator and the loop.
\<close>

fun for_tweets :: "(error + json) list \<Rightarrow> tweet_collection \<Rightarrow> tweet_collection \<times> error option" where
  "for_tweets [] st = (st\<lparr>parsed_tweets := []\<rparr>, None)"
| "for_tweets (Inl e # rest) st = (st\<lparr>parsed_tweets := []\<rparr>, Some e)"
| "for_tweets (Inr tweet # rest) st =
     (case add_tweet tweet (st\<lparr>parsed_tweets := rest\<rparr>) of
        (st1, Some e) \<Rightarrow> (st1, Some e)
      | (st1, None) \<Rightarrow> for_tweets rest st1)"

text \<open>All results of \<open>f\<close> over a list, or the first exception, as a loop gives them.\<close>

fun map_err :: "('a \<Rightarrow> error + 'b) \<Rightarrow> 'a list \<Rightarrow> error + 'b list" where
  "map_err f [] = Inr []"
| "map_err f (x # xs) =
     (case f x of
        Inl e \<Rightarrow> Inl e
      | Inr y \<Rightarrow> (case map_err f xs of Inl e \<Rightarrow> Inl e | Inr ys \<Rightarrow> Inr (y # ys)))"

text \<open>
  \<^verbatim>\<open>list.sort(key=...)\<close>: the key of every element is computed first, in order, and
  an exception there leaves the list as it was; the sort is stable and ascending.
  \<open>strptime\<close> stands for \<^verbatim>\<open>datetime.strptime\<close> at the format
  \<^verbatim>\<open>"%a %b %d %H:%M:%S %z %Y"\<close>, a function of the standard library: it gives a
  point in time, or raises.
\<close>

definition sort_key_of :: "(string \<Rightarrow> error + 'k) \<Rightarrow> xml \<Rightarrow> error + 'k" where
  "sort_key_of strptime x = bind_err (attrib_get x ''created_at'') strptime"

definition sort_tweets :: "(string \<Rightarrow> error + 'k::linorder) \<Rightarrow> xml list \<Rightarrow> error + xml list" where
  "sort_tweets strptime xs =
     (case map_err (sort_key_of strptime) xs of
        Inl e \<Rightarrow> Inl e
      | Inr ks \<Rightarrow> Inr (map snd (sort_key fst (zip ks xs))))"

text \<open>
  \<^verbatim>\<open>write_xml\<close>. \<open>tostring\<close> stands for lxml's serializer as the code calls it
  (UTF-8, with declaration, pretty-printed). The result is the collection and the
  file system as the call leaves them, and the exception if one was raised.
\<close>

definition write_xml ::
  "(string \<Rightarrow> error + 'k::linorder) \<Rightarrow> (xml \<Rightarrow> string) \<Rightarrow> string \<Rightarrow>
   tweet_collection \<times> filesystem \<Rightarrow> (tweet_collection \<times> filesystem) \<times> error option" where
  "write_xml strptime tostring output w =
     (case w of (st, fs) \<Rightarrow>
      let st0 = st\<lparr>output_tweets := []\<rparr> in
      (case for_tweets (parsed_tweets st0) st0 of
         (st1, Some e) \<Rightarrow> ((st1, fs), Some e)
       | (st1, None) \<Rightarrow>
           (case sort_tweets strptime (output_tweets st1) of
              Inl e \<Rightarrow> ((st1, fs), Some e)
            | Inr sorted_tweets \<Rightarrow>
                let st2 = st1\<lparr>output_tweets := sorted_tweets\<rparr>;
                    root = xml_root st2;
                    st3 = st2\<lparr>xml_root :=
                            Elem (tag root) (attrib root) (etext root)
                                 (children root @ output_tweets st2)\<rparr>
                in
                if writable fs output
                then ((st3, fs\<lparr>files := (files fs)(output \<mapsto> tostring (xml_root st3))\<rparr>), None)
                else ((st3, fs), Some OSError))))"

section \<open>word\_count\<close>

text \<open>\<^verbatim>\<open>tree.iter()\<close>: the root and all its descendants, in document order.\<close>

fun xml_iter :: "xml \<Rightarrow> xml list" where
  "xml_iter (Elem t a x cs) = Elem t a x cs # concat (map xml_iter cs)"

text \<open>What \<^verbatim>\<open>str.isspace\<close> holds of, among the code points below 256.\<close>

definition is_space :: "char \<Rightarrow> bool" where
  "is_space c = ((of_char c :: nat) \<in> {9, 10, 11, 12, 13, 28, 29, 30, 31, 32, 133, 160})"

text \<open>
  \<^verbatim>\<open>str.split()\<close> without arguments: the maximal runs of characters that are not
  whitespace, from left to right. \<open>w\<close> is the run being read.
\<close>

fun split_run :: "string \<Rightarrow> string \<Rightarrow> string list" where
  "split_run w [] = (if w = [] then [] else [w])"
| "split_run w (c # cs) =
     (if is_space c then (if w = [] then split_run [] cs else w # split_run [] cs)
      else split_run (w @ [c]) cs)"

definition split :: "string \<Rightarrow> string list" where
  "split s = split_run [] s"

text \<open>
  \<^verbatim>\<open>count_words\<close>: one count for each \<^verbatim>\<open><body>\<close> element, in document order. The
  text of an element without text is \<^verbatim>\<open>None\<close>, which has no \<^verbatim>\<open>split\<close>.
\<close>

definition body_words :: "xml \<Rightarrow> error + nat" where
  "body_words body = (case etext body of None \<Rightarrow> Inl AttributeError | Some s \<Rightarrow> Inr (length (split s)))"

definition count_words :: "xml \<Rightarrow> error + nat list" where
  "count_words xml_tree = map_err body_words (filter (\<lambda>e. tag e = ''body'') (xml_iter xml_tree))"

text \<open>The module body, from the parsed tree on: \<^verbatim>\<open>sum(count_words(tree))\<close>.\<close>

definition word_count :: "xml \<Rightarrow> error + nat" where
  "word_count tree = (case count_words tree of Inl e \<Rightarrow> Inl e | Inr ns \<Rightarrow> Inr (sum_list ns))"

text \<open>
  The total as the specification words it: over the \<^verbatim>\<open><body>\<close> elements anywhere in
  the document, the number of whitespace-separated tokens of the text, a body
  without text counting zero.
\<close>

definition bodies :: "xml \<Rightarrow> xml list" where
  "bodies doc = filter (\<lambda>e. tag e = ''body'') (xml_iter doc)"

definition body_tokens :: "xml \<Rightarrow> nat" where
  "body_tokens b = (case etext b of None \<Rightarrow> 0 | Some s \<Rightarrow> length (split s))"

definition spec_word_total :: "xml \<Rightarrow> nat" where
  "spec_word_total doc = sum_list (map body_tokens (bodies doc))"

section \<open>Instances of the library functions\<close>

text \<open>
  \<^verbatim>\<open>write_xml\<close> above takes \<^verbatim>\<open>datetime.strptime\<close> and \<^verbatim>\<open>etree.tostring\<close> as
  parameters, and what is proved of it holds for every such pair. The instances below
  are used where a run is evaluated. \<open>strptime_twitter\<close> reads the format
  \<^verbatim>\<open>"%a %b %d %H:%M:%S %z %Y"\<close> with the English names and the offsets written
  \<^verbatim>\<open>+HHMM\<close> or \<^verbatim>\<open>-HHMM\<close>, as Twitter writes its timestamps; its value is the instant,
  in seconds since the start of year 1 in UTC, which is how two aware
  \<^verbatim>\<open>datetime\<close> values compare. The weekday is read and not checked against the date.
\<close>

definition lower :: "char \<Rightarrow> char" where
  "lower c = (let n = (of_char c :: int) in if 65 \<le> n \<and> n \<le> 90 then char_of (n + 32) else c)"

definition number :: "string \<Rightarrow> int option" where
  "number s =
     (if s \<noteq> [] \<and> list_all (\<lambda>c. 48 \<le> (of_char c :: int) \<and> (of_char c :: int) \<le> 57) s
      then Some (foldl (\<lambda>a c. 10 * a + (of_char c - 48)) 0 s) else None)"

definition bounded :: "nat \<Rightarrow> int \<Rightarrow> int \<Rightarrow> string \<Rightarrow> int option" where
  "bounded len lo hi s =
     (case number s of
        None \<Rightarrow> None
      | Some v \<Rightarrow> if length s \<le> len \<and> lo \<le> v \<and> v \<le> hi then Some v else None)"

fun index_of :: "'a \<Rightarrow> 'a list \<Rightarrow> nat option" where
  "index_of x [] = None"
| "index_of x (y # ys) = (if x = y then Some 0 else map_option Suc (index_of x ys))"

fun split_on :: "char \<Rightarrow> string \<Rightarrow> string list" where
  "split_on sep [] = [[]]"
| "split_on sep (c # cs) =
     (if c = sep then [] # split_on sep cs
      else (case split_on sep cs of [] \<Rightarrow> [[c]] | w # ws \<Rightarrow> (c # w) # ws))"

definition is_leap :: "int \<Rightarrow> bool" where
  "is_leap y = (y mod 4 = 0 \<and> (y mod 100 \<noteq> 0 \<or> y mod 400 = 0))"

definition month_lengths :: "int \<Rightarrow> int list" where
  "month_lengths y = [31, if is_leap y then 29 else 28, 31, 30, 31, 30, 31, 31, 30, 31, 30, 31]"

definition days_before_year :: "int \<Rightarrow> int" where
  "days_before_year y = 365 * (y - 1) + (y - 1) div 4 - (y - 1) div 100 + (y - 1) div 400"

definition time_of_day :: "string \<Rightarrow> int option" where
  "time_of_day s =
     (case split_on CHR '':'' s of
        [h, m, sec] \<Rightarrow>
          (case (bounded 2 0 23 h, bounded 2 0 59 m, bounded 2 0 59 sec) of
             (Some hv, Some mv, Some sv) \<Rightarrow> Some (3600 * hv + 60 * mv + sv)
           | _ \<Rightarrow> None)
      | _ \<Rightarrow> None)"

definition utc_offset :: "string \<Rightarrow> int option" where
  "utc_offset s =
     (case s of
        [sg, h1, h2, m1, m2] \<Rightarrow>
          (case (bounded 2 0 23 [h1, h2], bounded 2 0 59 [m1, m2]) of
             (Some hv, Some mv) \<Rightarrow>
               if sg = CHR ''+'' then Some (3600 * hv + 60 * mv)
               else if sg = CHR ''-'' then Some (- (3600 * hv + 60 * mv))
               else None
           | _ \<Rightarrow> None)
      | _ \<Rightarrow> None)"

definition strptime_twitter :: "string \<Rightarrow> error + int" where
  "strptime_twitter s =
     (if s = [] \<or> is_space (hd s) \<or> is_space (last s) then Inl ValueError
      else
        (case split s of
           [a, b, d, t, z, y] \<Rightarrow>
             (case (index_of (map lower a) [''mon'', ''tue'', ''wed'', ''thu'', ''fri'', ''sat'', ''sun''],
                    index_of (map lower b) [''jan'', ''feb'', ''mar'', ''apr'', ''may'', ''jun'',
                                            ''jul'', ''aug'', ''sep'', ''oct'', ''nov'', ''dec''],
                    bounded 2 1 31 d, time_of_day t, utc_offset z,
                    if length y = 4 then bounded 4 1 9999 y else None) of
                (Some wd, Some mo, Some dv, Some tv, Some off, Some yv) \<Rightarrow>
                  if dv \<le> month_lengths yv ! mo
                  then Inr (86400 * (days_before_year yv + sum_list (take mo (month_lengths yv)) + (dv - 1))
                            + tv - off)
                  else Inl ValueError
              | _ \<Rightarrow> Inl ValueError)
         | _ \<Rightarrow> Inl ValueError))"

text \<open>
  \<open>tostring_flat\<close> writes the declaration and the tree with its attributes and text
  escaped, without the indentation lxml adds.
\<close>

fun escape :: "string \<Rightarrow> string" where
  "escape [] = []"
| "escape (c # cs) =
     (if c = CHR ''&'' then ''&amp;''
      else if c = CHR ''<'' then ''&lt;''
      else if c = CHR ''>'' then ''&gt;''
      else if c = CHR 0x22 then ''&quot;''
      else [c]) @ escape cs"

fun markup :: "xml \<Rightarrow> string" where
  "markup (Elem t a x cs) =
     ''<'' @ t @ concat (map (\<lambda>(k, v). '' '' @ k @ ''='' @ [CHR 0x22] @ escape v @ [CHR 0x22]) a) @ ''>'' @
     (case x of None \<Rightarrow> [] | Some s \<Rightarrow> escape s) @ concat (map markup cs) @
     ''</'' @ t @ ''>''"

definition tostring_flat :: "xml \<Rightarrow> string" where
  "tostring_flat root =
     ''<?xml version='' @ [CHR 0x27] @ ''1.0'' @ [CHR 0x27] @ '' encoding='' @ [CHR 0x27] @ ''utf-8'' @
     [CHR 0x27] @ ''?>'' @ [CHR 0x0A] @ markup root"

text \<open>A file system with no files, where every path can be opened for writing.\<close>

definition empty_fs :: filesystem where
  "empty_fs = \<lparr>files = Map.empty, writable = (\<lambda>p. True)\<rparr>"

section \<open>Example records\<close>

text \<open>
  The fields of an ordinary post by the user \<^verbatim>\<open>ann\<close>, without hashtags, mentions or
  links.
\<close>

definition post :: "int \<Rightarrow> string \<Rightarrow> string \<Rightarrow> string \<Rightarrow> (string \<times> json) list" where
  "post i i_str at body =
     [(''id'', JInt i), (''id_str'', JStr i_str), (''created_at'', JStr at),
      (''text'', JStr body), (''truncated'', JBool False),
      (''user'', JObj [(''screen_name'', JStr ''ann''), (''id_str'', JStr ''10'')]),
      (''entities'', JObj [(''hashtags'', JArr []), (''user_mentions'', JArr []), (''urls'', JArr [])])]"

definition post_a :: json where
  "post_a = JObj (post 1 ''1'' ''Mon Jan 02 15:04:05 +0000 2006'' ''first post'')"

text \<open>A later post that quotes \<open>post_a\<close>.\<close>

definition post_b :: json where
  "post_b = JObj ((''quoted_status'', post_a) # post 2 ''2'' ''Tue Jan 03 09:00:00 +0000 2006'' ''second post'')"

text \<open>A record without \<^verbatim>\<open>truncated\<close> and \<^verbatim>\<open>text\<close>, and one whose timestamp is in another format.\<close>

definition no_text :: json where
  "no_text = JObj [(''id'', JInt 3), (''id_str'', JStr ''3''),
                   (''created_at'', JStr ''Tue Jan 03 09:00:00 +0000 2006'')]"

definition bad_date :: json where
  "bad_date = JObj (post 4 ''4'' ''2006-01-03T09:00:00Z'' ''fourth post'')"

text \<open>A retweet of \<open>post_a\<close>, with an id of its own.\<close>

definition retweet_of_a :: json where
  "retweet_of_a =
     JObj ((''retweeted_status'', post_a) # post 7 ''7'' ''Wed Jan 04 10:00:00 +0000 2006'' ''RT first post'')"

text \<open>
  The fields of a truncated post: the top-level text and entities are the shortened
  ones, the full ones are under \<^verbatim>\<open>extended_tweet\<close>.
\<close>

definition truncated_fields :: "(string \<times> json) list" where
  "truncated_fields =
     [(''id'', JInt 5), (''id_str'', JStr ''5''),
      (''created_at'', JStr ''Thu Jan 05 12:00:00 +0000 2006''),
      (''text'', JStr ''hello''), (''truncated'', JBool True),
      (''user'', JObj [(''screen_name'', JStr ''ann''), (''id_str'', JStr ''10'')]),
      (''entities'', JObj [(''hashtags'', JArr [JObj [(''text'', JStr ''short'')]]),
                           (''user_mentions'', JArr []), (''urls'', JArr [])]),
      (''extended_tweet'',
         JObj [(''full_text'', JStr ''hello world foo''),
               (''entities'',
                  JObj [(''hashtags'', JArr [JObj [(''text'', JStr ''isabelle'')]]),
                        (''user_mentions'',
                           JArr [JObj [(''screen_name'', JStr ''bob''), (''id_str'', JStr ''11'')]]),
                        (''urls'', JArr [JObj [(''expanded_url'', JStr ''http://example.org/'')]])])])]"

text \<open>Two records to go with \<open>post_a\<close>: the same id under another \<^verbatim>\<open>id_str\<close>, and another id under the same \<^verbatim>\<open>id_str\<close>.\<close>

definition same_id_other_str :: json where
  "same_id_other_str = JObj (post 1 ''one'' ''Tue Jan 03 09:00:00 +0000 2006'' ''again'')"

definition other_id_same_str :: json where
  "other_id_same_str = JObj (post 8 ''1'' ''Tue Jan 03 09:00:00 +0000 2006'' ''another'')"

text \<open>A post that quotes the retweet \<open>retweet_of_a\<close>.\<close>

definition quotes_retweet :: json where
  "quotes_retweet =
     JObj ((''quoted_status'', retweet_of_a) # post 2 ''2'' ''Tue Jan 03 09:00:00 +0000 2006'' ''second post'')"

text \<open>
  The collection after a call of \<^verbatim>\<open>write_xml\<close> that raised on its second record, the
  third record still waiting in the generator.
\<close>

definition after_failed_call :: tweet_collection where
  "after_failed_call =
     fst (fst (write_xml strptime_twitter tostring_flat ''tweets.xml''
                 (init [Inr post_a, Inr no_text, Inr post_a], empty_fs)))"

text \<open>The collection and the file system after a first, successful call.\<close>

definition first_build :: "tweet_collection \<times> filesystem" where
  "first_build =
     fst (write_xml strptime_twitter tostring_flat ''tweets.xml'' (init [Inr post_b], empty_fs))"

text \<open>Two parsed documents: every body with text, and one body without.\<close>

definition two_body_doc :: xml where
  "two_body_doc =
     Elem ''tweets'' [] None
       [Elem ''tweet'' [(''id'', ''1'')] None
          [Elem ''body'' [] (Some ''hello world foo'') [], Elem ''details'' [] None []],
        Elem ''tweet'' [(''id'', ''2'')] None
          [Elem ''body'' [] (Some ''  '') [], Elem ''details'' [] None []],
        Elem ''tweet'' [(''id'', ''3'')] None
          [Elem ''body'' [] (Some ''two words'') [], Elem ''details'' [] None []]]"

definition empty_body_doc :: xml where
  "empty_body_doc =
     Elem ''tweets'' [] None
       [Elem ''tweet'' [(''id'', ''1'')] None
          [Elem ''body'' [] (Some ''hello world foo'') [], Elem ''details'' [] None []],
        Elem ''tweet'' [(''id'', ''2'')] None
          [Elem ''body'' [] None [], Elem ''details'' [] None []]]"

section \<open>What a successful call of add\_tweet has done\<close>

text \<open>The member of \<^verbatim>\<open>tweet_ids\<close> a record is looked up and stored as.\<close>

definition key_of :: "json \<Rightarrow> error + json" where
  "key_of tweet_dict = bind_err (getitem tweet_dict ''id'') hash_key"

text \<open>
  The records \<^verbatim>\<open>add_tweet\<close> can reach from a record: the record, then those of its
  \<^verbatim>\<open>retweeted_status\<close> if it has one, else those of its \<^verbatim>\<open>quoted_status\<close> if it has
  one.
\<close>

function records_of :: "json \<Rightarrow> json list" where
  "records_of tweet_dict =
     tweet_dict #
     (if has_key tweet_dict ''retweeted_status'' then
        (case getitem tweet_dict ''retweeted_status'' of Inl e \<Rightarrow> [] | Inr rt \<Rightarrow> records_of rt)
      else if has_key tweet_dict ''quoted_status'' then
        (case getitem tweet_dict ''quoted_status'' of Inl e \<Rightarrow> [] | Inr q \<Rightarrow> records_of q)
      else [])"
  by pat_completeness auto
termination
  by (relation "measure size") (auto dest: size_getitem)

declare records_of.simps [simp del]

text \<open>The records of the whole input: those of every line that parsed.\<close>

fun input_records :: "(error + json) list \<Rightarrow> json list" where
  "input_records [] = []"
| "input_records (Inl e # rest) = input_records rest"
| "input_records (Inr tweet # rest) = records_of tweet @ input_records rest"

text \<open>The \<^verbatim>\<open>quoted_from\<close> attribute a record gives its element, if any.\<close>

definition quoted_from :: "json \<Rightarrow> error + string option" where
  "quoted_from tweet_dict =
     (if has_key tweet_dict ''quoted_status'' then
        (case bind_err (bind_err (getitem tweet_dict ''quoted_status'') (\<lambda>q. getitem q ''id_str'')) xml_attr of
           Inl e \<Rightarrow> Inl e
         | Inr qi \<Rightarrow> Inr (Some qi))
      else Inr None)"

text \<open>
  The finished \<^verbatim>\<open><tweet>\<close> element of a record that is not a retweet: the value the
  list entry has when \<^verbatim>\<open>add_tweet\<close> returns normally.
\<close>

definition tweet_elem :: "json \<Rightarrow> error + xml" where
  "tweet_elem tweet_dict =
     bind_err (bind_err (getitem tweet_dict ''id_str'') xml_attr) (\<lambda>i.
     bind_err (bind_err (getitem tweet_dict ''created_at'') xml_attr) (\<lambda>c.
     bind_err (quoted_from tweet_dict) (\<lambda>qf.
     bind_err (bind_err (tweet_text tweet_dict) xml_text) (\<lambda>txt.
       (case fill_details (Elem ''details'' [] None []) tweet_dict of
          (d, Some e) \<Rightarrow> Inl e
        | (d, None) \<Rightarrow>
            Inr (Elem ''tweet''
                   ([(''id'', i), (''created_at'', c)] @
                    (case qf of None \<Rightarrow> [] | Some qi \<Rightarrow> [(''quoted_from'', qi)]))
                   None [Elem ''body'' [] txt [], d]))))))"

text \<open>
  The ids and the elements a call of \<^verbatim>\<open>add_tweet\<close> that returns normally adds, as a
  function of the record and the ids seen before: \<open>None\<close> when the call raises.
\<close>

function resolve :: "json \<Rightarrow> json set \<Rightarrow> (json set \<times> xml list) option" where
  "resolve tweet_dict ids =
     (case key_of tweet_dict of
        Inl e \<Rightarrow> None
      | Inr k \<Rightarrow>
          if k \<in> ids then Some (ids, [])
          else if has_key tweet_dict ''retweeted_status'' then
            (case getitem tweet_dict ''retweeted_status'' of
               Inl e \<Rightarrow> None
             | Inr rt \<Rightarrow> resolve rt (insert k ids))
          else
            (case tweet_elem tweet_dict of
               Inl e \<Rightarrow> None
             | Inr t \<Rightarrow>
                 if has_key tweet_dict ''quoted_status'' then
                   (case getitem tweet_dict ''quoted_status'' of
                      Inl e \<Rightarrow> None
                    | Inr q \<Rightarrow>
                        (case resolve q (insert k ids) of
                           None \<Rightarrow> None
                         | Some (ids1, ts) \<Rightarrow> Some (ids1, t # ts)))
                 else Some (insert k ids, [t])))"
  by pat_completeness auto
termination
  by (relation "measure (\<lambda>(tw, ids). size tw)") (auto dest: size_getitem)

declare resolve.simps [simp del]

text \<open>The same for the loop of \<^verbatim>\<open>write_xml\<close> over the items of the generator.\<close>

fun resolve_all :: "(error + json) list \<Rightarrow> json set \<Rightarrow> (json set \<times> xml list) option" where
  "resolve_all [] ids = Some (ids, [])"
| "resolve_all (Inl e # rest) ids = None"
| "resolve_all (Inr tweet # rest) ids =
     (case resolve tweet ids of
        None \<Rightarrow> None
      | Some (ids1, ts1) \<Rightarrow>
          (case resolve_all rest ids1 of
             None \<Rightarrow> None
           | Some (ids2, ts2) \<Rightarrow> Some (ids2, ts1 @ ts2)))"


text \<open>
  \<open>creators ids ids' rs els\<close>: the elements \<open>els\<close> are, one for one and in this order,
  the finished elements of the records \<open>rs\<close>; these records have pairwise different
  ids, none is a retweet, and their ids are in \<open>ids'\<close> and were not in \<open>ids\<close>.
\<close>

definition creators :: "json set \<Rightarrow> json set \<Rightarrow> json list \<Rightarrow> xml list \<Rightarrow> bool" where
  "creators ids ids' rs els \<longleftrightarrow>
     map tweet_elem rs = map Inr els \<and> distinct (map key_of rs) \<and> ids \<subseteq> ids' \<and>
     (\<forall>r\<in>set rs. \<not> has_key r ''retweeted_status'' \<and> (\<exists>k. key_of r = Inr k \<and> k \<in> ids' \<and> k \<notin> ids))"

text \<open>
  Every \<^verbatim>\<open>quoted_from\<close> attribute among the elements is the \<^verbatim>\<open>id\<close> attribute of one of
  them.
\<close>

definition quoted_ids_present :: "xml list \<Rightarrow> bool" where
  "quoted_ids_present ts \<longleftrightarrow>
     (\<forall>e\<in>set ts. case attrib_get e ''quoted_from'' of
        Inl x \<Rightarrow> True
      | Inr q \<Rightarrow> (\<exists>e'\<in>set ts. attrib_get e' ''id'' = Inr q))"

text \<open>Records of the input with the same \<^verbatim>\<open>id\<close> have the same \<^verbatim>\<open>id_str\<close>.\<close>

definition ids_agree :: "json list \<Rightarrow> bool" where
  "ids_agree rs \<longleftrightarrow>
     (\<forall>r1\<in>set rs. \<forall>r2\<in>set rs. key_of r1 = key_of r2 \<longrightarrow> getitem r1 ''id_str'' = getitem r2 ''id_str'')"

text \<open>No record with a \<^verbatim>\<open>retweeted_status\<close> has the \<^verbatim>\<open>id\<close> of a \<^verbatim>\<open>quoted_status\<close> of the input.\<close>

definition quotes_no_retweet :: "json list \<Rightarrow> bool" where
  "quotes_no_retweet rs \<longleftrightarrow>
     (\<forall>p\<in>set rs. case getitem p ''quoted_status'' of
        Inl e \<Rightarrow> True
      | Inr q \<Rightarrow> (\<forall>r\<in>set rs. has_key r ''retweeted_status'' \<longrightarrow> key_of r \<noteq> key_of q))"

text \<open>
  \<open>seen_inv R ids E\<close>: every id in \<open>ids\<close> is the id of a record of \<open>R\<close> that is a
  retweet or whose finished element is in \<open>E\<close>. \<open>quoted_in els E\<close>: every
  \<^verbatim>\<open>quoted_from\<close> attribute in \<open>els\<close> is the \<^verbatim>\<open>id\<close> attribute of an element of \<open>E\<close>.
\<close>

definition seen_inv :: "json set \<Rightarrow> json set \<Rightarrow> xml list \<Rightarrow> bool" where
  "seen_inv R ids E \<longleftrightarrow>
     (\<forall>k\<in>ids. \<exists>r\<in>R. key_of r = Inr k \<and>
        (has_key r ''retweeted_status'' \<or> (\<exists>e\<in>set E. tweet_elem r = Inr e)))"

definition quoted_in :: "xml list \<Rightarrow> xml list \<Rightarrow> bool" where
  "quoted_in els E \<longleftrightarrow>
     (\<forall>e\<in>set els. \<forall>q. attrib_get e ''quoted_from'' = Inr q \<longrightarrow>
        (\<exists>e'\<in>set E. attrib_get e' ''id'' = Inr q))"

section \<open>Properties of add\_tweet\<close>

lemma upd_elem_simps [simp]:
  "tweet_ids (upd_elem n f st) = tweet_ids st"
  "xml_root (upd_elem n f st) = xml_root st"
  "parsed_tweets (upd_elem n f st) = parsed_tweets st"
  "output_tweets (upd_elem n f st) = (output_tweets st)[n := f (output_tweets st ! n)]"
  by (simp_all add: upd_elem_def)

lemma create_tweet_frame:
  assumes "create_tweet tw st = (st', r)"
  shows "tweet_ids st' = tweet_ids st" "xml_root st' = xml_root st"
    "parsed_tweets st' = parsed_tweets st" "\<exists>e. output_tweets st' = output_tweets st @ [e]"
  using assms by (auto simp: create_tweet_def Let_def split: sum.splits)

lemma create_tweet_ok:
  assumes "create_tweet tw st = (st', None)"
  shows "\<exists>i c. bind_err (getitem tw ''id_str'') xml_attr = Inr i \<and>
           bind_err (getitem tw ''created_at'') xml_attr = Inr c \<and>
           st' = st\<lparr>output_tweets := output_tweets st @
                    [Elem ''tweet'' [(''id'', i), (''created_at'', c)] None []]\<rparr>"
  using assms by (auto simp: create_tweet_def Let_def upd_elem_def set_attr_def split: sum.splits)

lemma finish_tweet_frame:
  assumes "finish_tweet n tw st = (st', r)"
  shows "tweet_ids st' = tweet_ids st" "xml_root st' = xml_root st"
    "parsed_tweets st' = parsed_tweets st"
    "\<exists>e. output_tweets st' = (output_tweets st)[n := e]"
  using assms by (auto simp: finish_tweet_def Let_def split: sum.splits prod.splits)

lemma finish_tweet_ok:
  assumes "finish_tweet n tw st = (st', None)" "n < length (output_tweets st)"
  shows "\<exists>txt d. bind_err (tweet_text tw) xml_text = Inr txt \<and>
           fill_details (Elem ''details'' [] None []) tw = (d, None) \<and>
           st' = st\<lparr>output_tweets := (output_tweets st)
                   [n := append_child (append_child (output_tweets st ! n) (Elem ''body'' [] txt [])) d]\<rparr>"
  using assms by (auto simp: finish_tweet_def Let_def add_details_def upd_elem_def split: sum.splits prod.splits)


lemma add_tweet_frame:
  "add_tweet tw st = (st', r) \<Longrightarrow>
     xml_root st' = xml_root st \<and> parsed_tweets st' = parsed_tweets st \<and>
     tweet_ids st \<subseteq> tweet_ids st' \<and> (\<exists>new. output_tweets st' = output_tweets st @ new)"
proof (induction tw st arbitrary: st' r rule: add_tweet.induct)
  case (1 tw st)
  note eq = add_tweet.simps [of tw st]
  show ?case
  proof (cases "bind_err (getitem tw ''id'') hash_key")
    case (Inl e)
    with eq "1.prems" show ?thesis by simp
  next
    case (Inr k)
    note k = this
    show ?thesis
    proof (cases "k \<in> tweet_ids st")
      case True
      with eq k "1.prems" show ?thesis by simp
    next
      case False
      note fresh = this
      let ?st1 = "st\<lparr>tweet_ids := insert k (tweet_ids st)\<rparr>"
      show ?thesis
      proof (cases "has_key tw ''retweeted_status''")
        case True
        note rt = this
        show ?thesis
        proof (cases "getitem tw ''retweeted_status''")
          case (Inl e)
          with eq k fresh rt "1.prems" show ?thesis by (auto simp: Let_def)
        next
          case (Inr t)
          with eq k fresh rt "1.prems" have "add_tweet t ?st1 = (st', r)"
            by (simp add: Let_def)
          from "1.IH"(1) [OF k fresh refl rt Inr this]
          show ?thesis by auto
        qed
      next
        case False
        note nrt = this
        obtain st2 r2 where ct: "create_tweet tw ?st1 = (st2, r2)"
          by (cases "create_tweet tw ?st1") auto
        note f2 = create_tweet_frame [OF ct]
        from f2(4) obtain e0 where out2: "output_tweets st2 = output_tweets st @ [e0]" by auto
        let ?n = "length (output_tweets st)"
        show ?thesis
        proof (cases r2)
          case (Some e)
          with eq k fresh nrt ct "1.prems" have "st' = st2" by (simp add: Let_def)
          with f2 show ?thesis by auto
        next
          case None
          note ok2 = this
          show ?thesis
          proof (cases "has_key tw ''quoted_status''")
            case False
            with eq k fresh nrt ct ok2 "1.prems" have fin: "finish_tweet ?n tw st2 = (st', r)"
              by (simp add: Let_def)
            from finish_tweet_frame [OF fin] f2 out2 show ?thesis by auto
          next
            case True
            note qs = this
            show ?thesis
            proof (cases "getitem tw ''quoted_status''")
              case (Inl e)
              with eq k fresh nrt ct ok2 qs "1.prems" have "st' = st2" by (simp add: Let_def)
              with f2 show ?thesis by auto
            next
              case (Inr q)
              note q = this
              show ?thesis
              proof (cases "bind_err (getitem q ''id_str'') xml_attr")
                case (Inl e)
                with eq k fresh nrt ct ok2 qs q "1.prems" have "st' = st2" by (simp add: Let_def)
                with f2 show ?thesis by auto
              next
                case (Inr qi)
                note qi = this
                let ?st2' = "upd_elem ?n (set_attr ''quoted_from'' qi) st2"
                obtain st3 r3 where rec: "add_tweet q ?st2' = (st3, r3)"
                  by (cases "add_tweet q ?st2'") auto
                have ih: "xml_root st3 = xml_root ?st2' \<and> parsed_tweets st3 = parsed_tweets ?st2' \<and>
                    tweet_ids ?st2' \<subseteq> tweet_ids st3 \<and> (\<exists>new. output_tweets st3 = output_tweets ?st2' @ new)"
                  using "1.IH"(2) [OF k fresh refl nrt _ ct [symmetric] ok2 qs q qi] rec by simp
                then obtain new where out3: "output_tweets st3 = output_tweets ?st2' @ new" by auto
                have out2': "output_tweets ?st2' = output_tweets st @ [set_attr ''quoted_from'' qi e0]"
                  by (simp add: out2)
                show ?thesis
                proof (cases r3)
                  case (Some e)
                  with eq k fresh nrt ct ok2 qs q qi rec "1.prems" have "st' = st3" by (simp add: Let_def)
                  with ih f2 out3 out2' show ?thesis by auto
                next
                  case None
                  with eq k fresh nrt ct ok2 qs q qi rec "1.prems"
                  have fin: "finish_tweet ?n tw st3 = (st', r)" by (simp add: Let_def)
                  from finish_tweet_frame [OF fin] ih f2 out3 out2' show ?thesis
                    by (auto simp: list_update_append)
                qed
              qed
            qed
          qed
        qed
      qed
    qed
  qed
qed


lemma state_eqI:
  "tweet_ids a = tweet_ids b \<Longrightarrow> xml_root a = xml_root b \<Longrightarrow> parsed_tweets a = parsed_tweets b
   \<Longrightarrow> output_tweets a = output_tweets b \<Longrightarrow> (a :: tweet_collection) = b"
  by simp

lemma add_tweet_resolve:
  "add_tweet tw st = (st', None) \<Longrightarrow>
     \<exists>ids els. resolve tw (tweet_ids st) = Some (ids, els) \<and>
        st' = st\<lparr>tweet_ids := ids, output_tweets := output_tweets st @ els\<rparr>"
proof (induction tw st arbitrary: st' rule: add_tweet.induct)
  case (1 tw st)
  note eq = add_tweet.simps [of tw st]
  note req = resolve.simps [of tw "tweet_ids st"]
  show ?case
  proof (cases "bind_err (getitem tw ''id'') hash_key")
    case (Inl e)
    with eq "1.prems" show ?thesis by simp
  next
    case (Inr k)
    note k = this
    then have k': "key_of tw = Inr k" by (simp add: key_of_def)
    show ?thesis
    proof (cases "k \<in> tweet_ids st")
      case True
      with eq k "1.prems" have "st' = st" by simp
      moreover from True k' req have "resolve tw (tweet_ids st) = Some (tweet_ids st, [])" by simp
      ultimately show ?thesis by simp
    next
      case False
      note fresh = this
      let ?st1 = "st\<lparr>tweet_ids := insert k (tweet_ids st)\<rparr>"
      show ?thesis
      proof (cases "has_key tw ''retweeted_status''")
        case True
        note rt = this
        show ?thesis
        proof (cases "getitem tw ''retweeted_status''")
          case (Inl e)
          with eq k fresh rt "1.prems" show ?thesis by (auto simp: Let_def)
        next
          case (Inr t)
          with eq k fresh rt "1.prems" have "add_tweet t ?st1 = (st', None)"
            by (simp add: Let_def)
          from "1.IH"(1) [OF k fresh refl rt Inr this]
          obtain ids els where r: "resolve t (insert k (tweet_ids st)) = Some (ids, els)"
            and s: "st' = ?st1\<lparr>tweet_ids := ids, output_tweets := output_tweets ?st1 @ els\<rparr>"
            by auto
          from req k' fresh rt Inr r have "resolve tw (tweet_ids st) = Some (ids, els)" by simp
          with s show ?thesis by simp
        qed
      next
        case False
        note nrt = this
        obtain st2 r2 where ct: "create_tweet tw ?st1 = (st2, r2)"
          by (cases "create_tweet tw ?st1") auto
        let ?n = "length (output_tweets st)"
        show ?thesis
        proof (cases r2)
          case (Some e)
          with eq k fresh nrt ct "1.prems" show ?thesis by (simp add: Let_def)
        next
          case None
          note ok2 = this
          from create_tweet_ok [OF ct [unfolded ok2]] obtain i c where
            i: "bind_err (getitem tw ''id_str'') xml_attr = Inr i" and
            c: "bind_err (getitem tw ''created_at'') xml_attr = Inr c" and
            st2: "st2 = ?st1\<lparr>output_tweets := output_tweets ?st1 @
                    [Elem ''tweet'' [(''id'', i), (''created_at'', c)] None []]\<rparr>"
            by auto
          show ?thesis
          proof (cases "has_key tw ''quoted_status''")
            case False
            with eq k fresh nrt ct ok2 "1.prems" have fin: "finish_tweet ?n tw st2 = (st', None)"
              by (simp add: Let_def)
            from finish_tweet_ok [OF fin] st2 obtain bt d where
              bt: "bind_err (tweet_text tw) xml_text = Inr bt" and
              d: "fill_details (Elem ''details'' [] None []) tw = (d, None)" and
              st': "st' = st2\<lparr>output_tweets := (output_tweets st2)
                   [?n := append_child (append_child (output_tweets st2 ! ?n) (Elem ''body'' [] bt [])) d]\<rparr>"
              by auto
            let ?t = "Elem ''tweet'' [(''id'', i), (''created_at'', c)] None [Elem ''body'' [] bt [], d]"
            have te: "tweet_elem tw = Inr ?t"
              using i c bt d False by (simp add: tweet_elem_def quoted_from_def bind_err_def)
            have "resolve tw (tweet_ids st) = Some (insert k (tweet_ids st), [?t])"
              using req k' fresh nrt te False by simp
            moreover have "st' = st\<lparr>tweet_ids := insert k (tweet_ids st),
                 output_tweets := output_tweets st @ [?t]\<rparr>"
              unfolding st' st2 by (simp add: append_child_def)
            ultimately show ?thesis by simp
          next
            case True
            note qs = this
            show ?thesis
            proof (cases "getitem tw ''quoted_status''")
              case (Inl e)
              with eq k fresh nrt ct ok2 qs "1.prems" show ?thesis by (simp add: Let_def)
            next
              case (Inr q)
              note q = this
              show ?thesis
              proof (cases "bind_err (getitem q ''id_str'') xml_attr")
                case (Inl e)
                with eq k fresh nrt ct ok2 qs q "1.prems" show ?thesis by (simp add: Let_def)
              next
                case (Inr qi)
                note qi = this
                let ?st2' = "upd_elem ?n (set_attr ''quoted_from'' qi) st2"
                let ?E = "Elem ''tweet'' [(''id'', i), (''created_at'', c), (''quoted_from'', qi)] None []"
                have st2': "?st2' = ?st1\<lparr>output_tweets := output_tweets st @ [?E]\<rparr>"
                  unfolding st2 by (simp add: upd_elem_def set_attr_def)
                obtain st3 r3 where rec: "add_tweet q ?st2' = (st3, r3)"
                  by (cases "add_tweet q ?st2'") auto
                show ?thesis
                proof (cases r3)
                  case (Some e)
                  with eq k fresh nrt ct ok2 qs q qi rec "1.prems" show ?thesis by (simp add: Let_def)
                next
                  case None
                  with eq k fresh nrt ct ok2 qs q qi rec "1.prems"
                  have fin: "finish_tweet ?n tw st3 = (st', None)" by (simp add: Let_def)
                  have "\<exists>ids els. resolve q (tweet_ids ?st2') = Some (ids, els) \<and>
                      st3 = ?st2'\<lparr>tweet_ids := ids, output_tweets := output_tweets ?st2' @ els\<rparr>"
                    using "1.IH"(2) [OF k fresh refl nrt refl ct [symmetric] ok2 qs q qi, of st3] rec None
                    by simp
                  then obtain ids els where r: "resolve q (tweet_ids ?st2') = Some (ids, els)"
                    and s3: "st3 = ?st2'\<lparr>tweet_ids := ids, output_tweets := output_tweets ?st2' @ els\<rparr>"
                    by auto
                  have out3: "output_tweets st3 = output_tweets st @ ?E # els"
                    unfolding s3 st2' by simp
                  from finish_tweet_ok [OF fin] out3 obtain bt d where
                    bt: "bind_err (tweet_text tw) xml_text = Inr bt" and
                    d: "fill_details (Elem ''details'' [] None []) tw = (d, None)" and
                    st': "st' = st3\<lparr>output_tweets := (output_tweets st3)
                     [?n := append_child (append_child (output_tweets st3 ! ?n) (Elem ''body'' [] bt [])) d]\<rparr>"
                    by auto
                  let ?t = "Elem ''tweet'' [(''id'', i), (''created_at'', c), (''quoted_from'', qi)] None
                              [Elem ''body'' [] bt [], d]"
                  have te: "tweet_elem tw = Inr ?t"
                    using i c bt d qs q qi by (simp add: tweet_elem_def quoted_from_def bind_err_def)
                  have "resolve tw (tweet_ids st) = Some (ids, ?t # els)"
                    using req k' fresh nrt te qs q r st2 by simp
                  moreover have "st' = st\<lparr>tweet_ids := ids, output_tweets := output_tweets st @ ?t # els\<rparr>"
                    unfolding st' by (rule state_eqI) (simp_all add: out3 s3 st2' append_child_def)
                  ultimately show ?thesis by simp
                qed
              qed
            qed
          qed
        qed
      qed
    qed
  qed
qed

section \<open>The loop, the sort and the document\<close>

lemma for_tweets_resolve:
  "for_tweets items st = (st', None) \<Longrightarrow>
     \<exists>ids els. resolve_all items (tweet_ids st) = Some (ids, els) \<and>
        st' = st\<lparr>tweet_ids := ids, parsed_tweets := [],
                 output_tweets := output_tweets st @ els\<rparr>"
proof (induction items st arbitrary: st' rule: for_tweets.induct)
  case (1 st)
  then show ?case by auto
next
  case (2 e rest st)
  then show ?case by auto
next
  case (3 tweet rest st)
  obtain st1 r1 where a: "add_tweet tweet (st\<lparr>parsed_tweets := rest\<rparr>) = (st1, r1)"
    by (cases "add_tweet tweet (st\<lparr>parsed_tweets := rest\<rparr>)") auto
  show ?case
  proof (cases r1)
    case (Some e)
    with a "3.prems" show ?thesis by simp
  next
    case None
    with a "3.prems" have l: "for_tweets rest st1 = (st', None)" by simp
    from add_tweet_resolve [OF a [unfolded None]] obtain ids1 ts1 where
      r1: "resolve tweet (tweet_ids st) = Some (ids1, ts1)" and
      s1: "st1 = st\<lparr>parsed_tweets := rest, tweet_ids := ids1, output_tweets := output_tweets st @ ts1\<rparr>"
      by auto
    from "3.IH" [OF a [symmetric] None l] obtain ids2 ts2 where
      r2: "resolve_all rest (tweet_ids st1) = Some (ids2, ts2)" and
      s2: "st' = st1\<lparr>tweet_ids := ids2, parsed_tweets := [], output_tweets := output_tweets st1 @ ts2\<rparr>"
      by auto
    from r1 r2 s1 have "resolve_all (Inr tweet # rest) (tweet_ids st) = Some (ids2, ts1 @ ts2)"
      by simp
    moreover from s1 s2 have "st' = st\<lparr>tweet_ids := ids2, parsed_tweets := [],
        output_tweets := output_tweets st @ ts1 @ ts2\<rparr>"
      by simp
    ultimately show ?thesis by simp
  qed
qed

lemma map_err_Inr: "map_err f xs = Inr ys \<Longrightarrow> map f xs = map Inr ys"
  by (induction xs arbitrary: ys) (auto split: sum.splits)

lemma sort_tweets_sorted:
  assumes "sort_tweets strptime xs = Inr ys"
  shows "mset ys = mset xs"
    and "\<exists>ks. map (sort_key_of strptime) ys = map Inr ks \<and> sorted ks"
proof -
  from assms obtain ks0 where k0: "map_err (sort_key_of strptime) xs = Inr ks0"
    and ys: "ys = map snd (sort_key fst (zip ks0 xs))"
    by (auto simp: sort_tweets_def split: sum.splits)
  from k0 have m: "map (sort_key_of strptime) xs = map Inr ks0" by (simp add: map_err_Inr)
  then have len: "length ks0 = length xs" by (metis length_map)
  let ?zs = "sort_key fst (zip ks0 xs)"
  have "mset (map snd ?zs) = image_mset snd (mset (zip ks0 xs))" by simp
  also have "\<dots> = mset (map snd (zip ks0 xs))" by simp
  also have "\<dots> = mset xs" using len by simp
  finally show "mset ys = mset xs" by (simp add: ys)
  have "\<forall>p\<in>set (zip ks0 xs). sort_key_of strptime (snd p) = Inr (fst p)"
  proof
    fix p assume "p \<in> set (zip ks0 xs)"
    then obtain i where i: "i < length xs" "p = (ks0 ! i, xs ! i)"
      using len by (auto simp: set_zip)
    from m i(1) len have "map (sort_key_of strptime) xs ! i = map Inr ks0 ! i" by simp
    with i len show "sort_key_of strptime (snd p) = Inr (fst p)" by simp
  qed
  then have "\<forall>p\<in>set ?zs. sort_key_of strptime (snd p) = Inr (fst p)" by simp
  then have "map (sort_key_of strptime) (map snd ?zs) = map Inr (map fst ?zs)" by simp
  moreover have "sorted (map fst ?zs)" by (rule sorted_sort_key)
  ultimately show "\<exists>ks. map (sort_key_of strptime) ys = map Inr ks \<and> sorted ks"
    unfolding ys by blast
qed

lemma write_xml_init_ok:
  assumes "snd (write_xml strptime tostring output (init input, fs)) = None"
  shows "\<exists>ids els ys. resolve_all input {} = Some (ids, els) \<and>
           sort_tweets strptime els = Inr ys \<and>
           fst (write_xml strptime tostring output (init input, fs)) =
             (\<lparr>tweet_ids = ids, xml_root = Elem ''tweets'' [] None ys,
               parsed_tweets = [], output_tweets = ys\<rparr>,
              fs\<lparr>files := (files fs)(output \<mapsto> tostring (Elem ''tweets'' [] None ys))\<rparr>)"
proof -
  let ?st0 = "(init input)\<lparr>output_tweets := []\<rparr>"
  obtain st1 r1 where l: "for_tweets input ?st0 = (st1, r1)"
    by (cases "for_tweets input ?st0") auto
  have p: "parsed_tweets ?st0 = input" by (simp add: init_def)
  from assms l p have r1: "r1 = None"
    by (auto simp: write_xml_def Let_def split: option.splits)
  from for_tweets_resolve [OF l [unfolded r1]] obtain ids els where
    r: "resolve_all input {} = Some (ids, els)" and
    s1: "st1 = \<lparr>tweet_ids = ids, xml_root = Elem ''tweets'' [] None [],
               parsed_tweets = [], output_tweets = els\<rparr>"
    by (auto simp: init_def)
  from assms l p r1 obtain ys where ys: "sort_tweets strptime (output_tweets st1) = Inr ys"
    by (auto simp: write_xml_def Let_def split: sum.splits)
  with assms l p r1 s1 have
    "fst (write_xml strptime tostring output (init input, fs)) =
             (\<lparr>tweet_ids = ids, xml_root = Elem ''tweets'' [] None ys,
               parsed_tweets = [], output_tweets = ys\<rparr>,
              fs\<lparr>files := (files fs)(output \<mapsto> tostring (Elem ''tweets'' [] None ys))\<rparr>)"
    by (auto simp: write_xml_def Let_def split: if_splits)
  with r ys s1 show ?thesis by auto
qed

lemma creators_Nil: "creators ids ids [] []"
  by (simp add: creators_def)

lemma creators_mono: "creators (insert k ids) ids' rs els \<Longrightarrow> creators ids ids' rs els"
  by (auto simp: creators_def)

lemma creators_Cons:
  assumes "creators (insert k ids) ids' rs els" "key_of r = Inr k" "k \<notin> ids"
    "\<not> has_key r ''retweeted_status''" "tweet_elem r = Inr t"
  shows "creators ids ids' (r # rs) (t # els)"
  using assms by (auto simp: creators_def)

lemma creators_append:
  assumes "creators ids ids1 rs1 els1" "creators ids1 ids2 rs2 els2"
  shows "creators ids ids2 (rs1 @ rs2) (els1 @ els2)"
  using assms by (fastforce simp: creators_def)

lemma resolve_creators:
  "resolve tw ids = Some (ids', els) \<Longrightarrow>
     \<exists>rs. set rs \<subseteq> set (records_of tw) \<and> creators ids ids' rs els"
proof (induction tw ids arbitrary: ids' els rule: resolve.induct)
  case (1 tw ids)
  note req = resolve.simps [of tw ids]
  note rec = records_of.simps [of tw]
  show ?case
  proof (cases "key_of tw")
    case (Inl e)
    with req "1.prems" show ?thesis by simp
  next
    case (Inr k)
    note k = this
    show ?thesis
    proof (cases "k \<in> ids")
      case True
      with req k "1.prems" have "ids' = ids" "els = []" by simp_all
      then show ?thesis using creators_Nil [of ids] by (intro exI [of _ "[]"]) simp
    next
      case False
      note fresh = this
      show ?thesis
      proof (cases "has_key tw ''retweeted_status''")
        case True
        note rt = this
        show ?thesis
        proof (cases "getitem tw ''retweeted_status''")
          case (Inl e)
          with req k fresh rt "1.prems" show ?thesis by simp
        next
          case (Inr t)
          with req k fresh rt "1.prems" have "resolve t (insert k ids) = Some (ids', els)" by simp
          from "1.IH"(1) [OF k fresh rt Inr this] obtain rs where
            "set rs \<subseteq> set (records_of t)" "creators (insert k ids) ids' rs els" by auto
          moreover from rec rt Inr have "set (records_of t) \<subseteq> set (records_of tw)" by auto
          ultimately show ?thesis using creators_mono by blast
        qed
      next
        case False
        note nrt = this
        show ?thesis
        proof (cases "tweet_elem tw")
          case (Inl e)
          with req k fresh nrt "1.prems" show ?thesis by simp
        next
          case (Inr t)
          note t = this
          have self: "tw \<in> set (records_of tw)" using rec by simp
          show ?thesis
          proof (cases "has_key tw ''quoted_status''")
            case False
            with req k fresh nrt t "1.prems" have "ids' = insert k ids" "els = [t]" by simp_all
            moreover have "creators ids (insert k ids) [tw] [t]"
              using creators_Cons [OF creators_Nil k fresh nrt t] .
            ultimately show ?thesis using self by (intro exI [of _ "[tw]"]) simp
          next
            case True
            note qs = this
            show ?thesis
            proof (cases "getitem tw ''quoted_status''")
              case (Inl e)
              with req k fresh nrt t qs "1.prems" show ?thesis by simp
            next
              case (Inr q)
              with req k fresh nrt t qs "1.prems" obtain ts where
                r: "resolve q (insert k ids) = Some (ids', ts)" and els: "els = t # ts"
                by (auto split: option.splits)
              from "1.IH"(2) [OF k fresh nrt t qs Inr r] obtain rs where
                rs: "set rs \<subseteq> set (records_of q)" "creators (insert k ids) ids' rs ts" by auto
              from rec nrt qs Inr have "set (records_of q) \<subseteq> set (records_of tw)" by auto
              with rs self have "set (tw # rs) \<subseteq> set (records_of tw)" by auto
              moreover have "creators ids ids' (tw # rs) (t # ts)"
                using creators_Cons [OF rs(2) k fresh nrt t] .
              ultimately show ?thesis unfolding els by blast
            qed
          qed
        qed
      qed
    qed
  qed
qed

lemma resolve_all_creators:
  "resolve_all items ids = Some (ids', els) \<Longrightarrow>
     \<exists>rs. set rs \<subseteq> set (input_records items) \<and> creators ids ids' rs els"
proof (induction items ids arbitrary: ids' els rule: resolve_all.induct)
  case (1 ids)
  then show ?case using creators_Nil [of ids] by (intro exI [of _ "[]"]) simp
next
  case (2 e rest ids)
  then show ?case by simp
next
  case (3 tweet rest ids)
  from "3.prems" obtain ids1 ts1 ts2 where
    r1: "resolve tweet ids = Some (ids1, ts1)" and
    r2: "resolve_all rest ids1 = Some (ids', ts2)" and els: "els = ts1 @ ts2"
    by (auto split: option.splits)
  from resolve_creators [OF r1] obtain rs1 where
    a: "set rs1 \<subseteq> set (records_of tweet)" "creators ids ids1 rs1 ts1" by auto
  from "3.IH" [OF r1 refl r2] obtain rs2 where
    b: "set rs2 \<subseteq> set (input_records rest)" "creators ids1 ids' rs2 ts2" by auto
  from a b have "set (rs1 @ rs2) \<subseteq> set (input_records (Inr tweet # rest))" by auto
  moreover from creators_append [OF a(2) b(2)] have "creators ids ids' (rs1 @ rs2) els"
    by (simp add: els)
  ultimately show ?case by blast
qed

lemma reorder_creators:
  "mset ys = mset xs \<Longrightarrow> map f rs = map g xs \<Longrightarrow>
     \<exists>rs'. mset rs' = mset rs \<and> map f rs' = map g ys"
proof (induction ys arbitrary: xs rs)
  case Nil
  then show ?case by auto
next
  case (Cons y ys)
  from Cons.prems(1) have "y \<in> set xs" by (metis list.set_intros(1) set_mset_mset)
  then obtain as bs where xs: "xs = as @ y # bs" by (meson split_list)
  from Cons.prems(2) have len: "length rs = length xs" by (metis length_map)
  define ras where "ras = take (length as) rs"
  define r where "r = rs ! length as"
  define rbs where "rbs = drop (Suc (length as)) rs"
  have rs: "rs = ras @ r # rbs"
    unfolding ras_def r_def rbs_def using len xs by (simp add: id_take_nth_drop)
  have lra: "length ras = length as" unfolding ras_def using len xs by simp
  from Cons.prems(2) have "map f ras @ f r # map f rbs = map g as @ g y # map g bs"
    unfolding rs xs by simp
  with lra have e: "map f ras = map g as" "f r = g y" "map f rbs = map g bs"
    by (simp_all add: append_eq_append_conv)
  from Cons.prems(1) have "mset ys = mset (as @ bs)" unfolding xs by simp
  moreover from e have "map f (ras @ rbs) = map g (as @ bs)" by simp
  ultimately obtain rs' where "mset rs' = mset (ras @ rbs)" "map f rs' = map g ys"
    using Cons.IH by blast
  with e(2) have "mset (r # rs') = mset rs \<and> map f (r # rs') = map g (y # ys)"
    unfolding rs by simp
  then show ?case by blast
qed

lemma tweet_elem_fields:
  assumes "tweet_elem r = Inr e"
  shows "\<exists>i c qf bt d.
           bind_err (getitem r ''id_str'') xml_attr = Inr i \<and>
           bind_err (getitem r ''created_at'') xml_attr = Inr c \<and>
           quoted_from r = Inr qf \<and>
           bind_err (tweet_text r) xml_text = Inr bt \<and>
           fill_details (Elem ''details'' [] None []) r = (d, None) \<and>
           e = Elem ''tweet''
                 ([(''id'', i), (''created_at'', c)] @
                  (case qf of None \<Rightarrow> [] | Some qi \<Rightarrow> [(''quoted_from'', qi)]))
                 None [Elem ''body'' [] bt [], d]"
proof -
  obtain i where i: "bind_err (getitem r ''id_str'') xml_attr = Inr i"
    using assms by (cases "bind_err (getitem r ''id_str'') xml_attr") (auto simp: tweet_elem_def bind_err_def)
  obtain c where c: "bind_err (getitem r ''created_at'') xml_attr = Inr c"
    using assms i by (cases "bind_err (getitem r ''created_at'') xml_attr") (auto simp: tweet_elem_def bind_err_def)
  obtain qf where qf: "quoted_from r = Inr qf"
    using assms i c by (cases "quoted_from r") (auto simp: tweet_elem_def bind_err_def)
  obtain bt where bt: "bind_err (tweet_text r) xml_text = Inr bt"
    using assms i c qf by (cases "bind_err (tweet_text r) xml_text") (auto simp: tweet_elem_def bind_err_def)
  obtain d x where d: "fill_details (Elem ''details'' [] None []) r = (d, x)"
    by (cases "fill_details (Elem ''details'' [] None []) r") auto
  from assms i c qf bt d have "x = None"
    by (cases x) (auto simp: tweet_elem_def bind_err_def)
  with assms i c qf bt d show ?thesis
    by (auto simp: tweet_elem_def bind_err_def)
qed

lemma tweet_elem_attrib:
  assumes "tweet_elem r = Inr e"
  shows "attrib_get e ''id'' = bind_err (getitem r ''id_str'') xml_attr"
    and "attrib_get e ''created_at'' = bind_err (getitem r ''created_at'') xml_attr"
  using tweet_elem_fields [OF assms] by (auto simp: attrib_get_def)

lemma add_tweet_seen:
  "key_of tw = Inr k \<Longrightarrow> k \<in> tweet_ids st \<Longrightarrow> add_tweet tw st = (st, None)"
  by (subst add_tweet.simps) (simp add: key_of_def)

lemma add_tweet_inserts:
  assumes "key_of tw = Inr k"
  shows "k \<in> tweet_ids (fst (add_tweet tw st))"
proof (cases "k \<in> tweet_ids st")
  case True
  with assms show ?thesis by (simp add: add_tweet_seen)
next
  case False
  let ?st1 = "st\<lparr>tweet_ids := insert k (tweet_ids st)\<rparr>"
  note eq = add_tweet.simps [of tw st]
  from assms have k: "bind_err (getitem tw ''id'') hash_key = Inr k" by (simp add: key_of_def)
  have *: "\<And>st' r. create_tweet tw ?st1 = (st', r) \<Longrightarrow> k \<in> tweet_ids st'"
    using create_tweet_frame(1) by fastforce
  have **: "\<And>n st0 st' r. finish_tweet n tw st0 = (st', r) \<Longrightarrow> k \<in> tweet_ids st0 \<Longrightarrow> k \<in> tweet_ids st'"
    using finish_tweet_frame(1) by fastforce
  have ***: "\<And>q st0 st' r. add_tweet q st0 = (st', r) \<Longrightarrow> k \<in> tweet_ids st0 \<Longrightarrow> k \<in> tweet_ids st'"
    using add_tweet_frame by blast
  obtain st' r where res: "add_tweet tw st = (st', r)" by (cases "add_tweet tw st") auto
  have "k \<in> tweet_ids st'"
  proof (cases "has_key tw ''retweeted_status''")
    case True
    show ?thesis
    proof (cases "getitem tw ''retweeted_status''")
      case (Inl e)
      with eq k \<open>k \<notin> tweet_ids st\<close> True res show ?thesis by (auto simp: Let_def)
    next
      case (Inr t)
      with eq k \<open>k \<notin> tweet_ids st\<close> True res have "add_tweet t ?st1 = (st', r)"
        by (simp add: Let_def)
      from *** [OF this] show ?thesis by simp
    qed
  next
    case False
    note nrt = this
    obtain st2 r2 where ct: "create_tweet tw ?st1 = (st2, r2)"
      by (cases "create_tweet tw ?st1") auto
    from * [OF ct] have k2: "k \<in> tweet_ids st2" .
    show ?thesis
    proof (cases r2)
      case (Some e)
      with eq k \<open>k \<notin> tweet_ids st\<close> nrt ct res k2 show ?thesis by (simp add: Let_def)
    next
      case None
      show ?thesis
      proof (cases "has_key tw ''quoted_status''")
        case False
        with eq k \<open>k \<notin> tweet_ids st\<close> nrt ct None res
        have "finish_tweet (length (output_tweets st)) tw st2 = (st', r)" by (simp add: Let_def)
        from ** [OF this k2] show ?thesis .
      next
        case True
        show ?thesis
        proof (cases "getitem tw ''quoted_status''")
          case (Inl e)
          with eq k \<open>k \<notin> tweet_ids st\<close> nrt ct None True res k2 show ?thesis by (simp add: Let_def)
        next
          case (Inr q)
          note q = this
          show ?thesis
          proof (cases "bind_err (getitem q ''id_str'') xml_attr")
            case (Inl e)
            with eq k \<open>k \<notin> tweet_ids st\<close> nrt ct None True q res k2 show ?thesis by (simp add: Let_def)
          next
            case (Inr qi)
            let ?s = "upd_elem (length (output_tweets st)) (set_attr ''quoted_from'' qi) st2"
            obtain st3 r3 where rec: "add_tweet q ?s = (st3, r3)" by (cases "add_tweet q ?s") auto
            from *** [OF rec] k2 have k3: "k \<in> tweet_ids st3" by simp
            show ?thesis
            proof (cases r3)
              case (Some e)
              with eq k \<open>k \<notin> tweet_ids st\<close> nrt ct None True q Inr rec res k3 show ?thesis
                by (simp add: Let_def)
            next
              case None3: None
              with eq k \<open>k \<notin> tweet_ids st\<close> nrt ct None True q Inr rec res
              have "finish_tweet (length (output_tweets st)) tw st3 = (st', r)" by (simp add: Let_def)
              from ** [OF this k3] show ?thesis .
            qed
          qed
        qed
      qed
    qed
  qed
  with res show ?thesis by simp
qed

lemma write_xml_init_creators:
  assumes "snd (write_xml strptime tostring output (init input, fs)) = None"
  shows "\<exists>rs ids. set rs \<subseteq> set (input_records input) \<and>
           map tweet_elem rs =
             map Inr (children (xml_root (fst (fst (write_xml strptime tostring output (init input, fs)))))) \<and>
           creators {} ids rs (children (xml_root (fst (fst (write_xml strptime tostring output (init input, fs))))))"
proof -
  from write_xml_init_ok [OF assms] obtain ids els ys where
    r: "resolve_all input {} = Some (ids, els)" and
    s: "sort_tweets strptime els = Inr ys" and
    w: "fst (write_xml strptime tostring output (init input, fs)) =
             (\<lparr>tweet_ids = ids, xml_root = Elem ''tweets'' [] None ys,
               parsed_tweets = [], output_tweets = ys\<rparr>,
              fs\<lparr>files := (files fs)(output \<mapsto> tostring (Elem ''tweets'' [] None ys))\<rparr>)"
    by blast
  from resolve_all_creators [OF r] obtain rs where
    a: "set rs \<subseteq> set (input_records input)" and b: "creators {} ids rs els" by auto
  from b have m: "map tweet_elem rs = map Inr els" by (simp add: creators_def)
  from reorder_creators [OF sort_tweets_sorted(1) [OF s] m] obtain rs' where
    p: "mset rs' = mset rs" and m': "map tweet_elem rs' = map Inr ys" by blast
  from p have sets: "set rs' = set rs" by (metis set_mset_mset)
  from p have "mset (map key_of rs') = mset (map key_of rs)" by simp
  then have "distinct (map key_of rs') = distinct (map key_of rs)"
    by (rule mset_eq_imp_distinct_iff)
  with b sets m' have "creators {} ids rs' ys" by (simp add: creators_def)
  with a sets m' w show ?thesis by auto
qed

section \<open>One element for each id, in order of time\<close>

text \<open>
  C1. \<^verbatim>\<open>add_tweet\<close> returns at once, changing nothing, when the id of the record is in
  \<^verbatim>\<open>tweet_ids\<close>; otherwise the id is in the set from then on, whatever the call goes on
  to do. So the document a fresh collection writes has at most one \<^verbatim>\<open><tweet>\<close> for
  each id: its elements are, one for one, the finished elements of records of the input
  whose ids are pairwise different.
\<close>

theorem one_element_per_id:
  "(key_of tw = Inr k \<and> k \<in> tweet_ids st \<longrightarrow> add_tweet tw st = (st, None))
   \<and> (key_of tw = Inr k \<longrightarrow> k \<in> tweet_ids (fst (add_tweet tw st)))
   \<and> (snd (write_xml strptime tostring output (init input, fs)) = None \<longrightarrow>
        (\<exists>rs. set rs \<subseteq> set (input_records input) \<and>
              map tweet_elem rs =
                map Inr (children (xml_root (fst (fst (write_xml strptime tostring output (init input, fs)))))) \<and>
              distinct (map key_of rs)))"
proof (intro conjI impI)
  assume "key_of tw = Inr k \<and> k \<in> tweet_ids st"
  then show "add_tweet tw st = (st, None)" by (simp add: add_tweet_seen)
next
  assume "key_of tw = Inr k"
  then show "k \<in> tweet_ids (fst (add_tweet tw st))" by (rule add_tweet_inserts)
next
  assume "snd (write_xml strptime tostring output (init input, fs)) = None"
  from write_xml_init_creators [OF this]
  show "\<exists>rs. set rs \<subseteq> set (input_records input) \<and>
              map tweet_elem rs =
                map Inr (children (xml_root (fst (fst (write_xml strptime tostring output (init input, fs)))))) \<and>
              distinct (map key_of rs)"
    by (auto simp: creators_def)
qed

text \<open>
  The post 1 arrives three times, quoted by post 2 and twice on a line of its own: the
  document has one element for it.
\<close>

theorem one_element_per_id_witness:
  "key_of post_a = Inr (JInt 1) \<and> JInt 1 \<in> tweet_ids after_failed_call
   \<and> add_tweet post_a after_failed_call = (after_failed_call, None)
   \<and> JInt 1 \<in> tweet_ids (fst (add_tweet post_a (init [])))
   \<and> snd (write_xml strptime_twitter tostring_flat ''tweets.xml''
            (init [Inr post_b, Inr post_a, Inr post_a], empty_fs)) = None
   \<and> (\<exists>rs. set rs \<subseteq> set (input_records [Inr post_b, Inr post_a, Inr post_a]) \<and>
            map tweet_elem rs =
              map Inr (children (xml_root (fst (fst (write_xml strptime_twitter tostring_flat ''tweets.xml''
                (init [Inr post_b, Inr post_a, Inr post_a], empty_fs)))))) \<and>
            distinct (map key_of rs))
   \<and> map (\<lambda>e. attrib_get e ''id'')
        (children (xml_root (fst (fst (write_xml strptime_twitter tostring_flat ''tweets.xml''
           (init [Inr post_b, Inr post_a, Inr post_a], empty_fs)))))) = [Inr ''1'', Inr ''2'']"
proof -
  have k: "key_of post_a = Inr (JInt 1)" by code_simp
  have s: "JInt 1 \<in> tweet_ids after_failed_call" by code_simp
  have h: "snd (write_xml strptime_twitter tostring_flat ''tweets.xml''
            (init [Inr post_b, Inr post_a, Inr post_a], empty_fs)) = None" by code_simp
  have n: "map (\<lambda>e. attrib_get e ''id'')
        (children (xml_root (fst (fst (write_xml strptime_twitter tostring_flat ''tweets.xml''
           (init [Inr post_b, Inr post_a, Inr post_a], empty_fs)))))) = [Inr ''1'', Inr ''2'']"
    by code_simp
  note t1 = one_element_per_id [of post_a "JInt 1" after_failed_call strptime_twitter tostring_flat
      "''tweets.xml''" "[Inr post_b, Inr post_a, Inr post_a]" empty_fs]
  note t2 = one_element_per_id [of post_a "JInt 1" "init []" strptime_twitter tostring_flat
      "''tweets.xml''" "[Inr post_b, Inr post_a, Inr post_a]" empty_fs]
  from k s h n t1 t2 show ?thesis by simp
qed

text \<open>
  C3. In the document a fresh collection writes, the \<^verbatim>\<open>created_at\<close> attributes of the
  \<^verbatim>\<open><tweet>\<close> elements all parse, and the parsed times never decrease from one element
  to the next, whatever order the elements were made in; each attribute is the
  \<^verbatim>\<open>created_at\<close> string of the record the element was made from, unchanged.
\<close>

theorem output_sorted_by_created_at:
  assumes "snd (write_xml strptime tostring output (init input, fs)) = None"
  shows "\<exists>ks rs.
           map (sort_key_of strptime)
             (children (xml_root (fst (fst (write_xml strptime tostring output (init input, fs)))))) = map Inr ks \<and>
           sorted ks \<and>
           set rs \<subseteq> set (input_records input) \<and>
           list_all2 (\<lambda>r e. \<exists>c. getitem r ''created_at'' = Inr (JStr c) \<and> attrib_get e ''created_at'' = Inr c)
             rs (children (xml_root (fst (fst (write_xml strptime tostring output (init input, fs))))))"
proof -
  let ?cs = "children (xml_root (fst (fst (write_xml strptime tostring output (init input, fs)))))"
  from write_xml_init_ok [OF assms] obtain ids els where
    s: "sort_tweets strptime els = Inr ?cs" by auto
  from sort_tweets_sorted(2) [OF s] obtain ks where
    ks: "map (sort_key_of strptime) ?cs = map Inr ks" "sorted ks" by blast
  from write_xml_init_creators [OF assms] obtain rs where
    rs: "set rs \<subseteq> set (input_records input)" "map tweet_elem rs = map Inr ?cs" by blast
  have "list_all2 (\<lambda>r e. \<exists>c. getitem r ''created_at'' = Inr (JStr c) \<and> attrib_get e ''created_at'' = Inr c) rs ?cs"
  proof (rule list_all2_all_nthI)
    from rs(2) show "length rs = length ?cs" by (metis length_map)
  next
    fix n assume n: "n < length rs"
    with rs(2) have l: "n < length ?cs" by (metis length_map)
    from rs(2) have "map tweet_elem rs ! n = map Inr ?cs ! n" by simp
    with n l have te: "tweet_elem (rs ! n) = Inr (?cs ! n)" by simp
    from tweet_elem_fields [OF te] obtain c where
      c: "bind_err (getitem (rs ! n) ''created_at'') xml_attr = Inr c"
      and a: "attrib_get (?cs ! n) ''created_at'' = Inr c"
      by (auto simp: attrib_get_def)
    from c have "getitem (rs ! n) ''created_at'' = Inr (JStr c)"
      by (cases "getitem (rs ! n) ''created_at''"; cases "projr (getitem (rs ! n) ''created_at'')")
         (auto simp: bind_err_def split: if_splits)
    with a show "\<exists>c. getitem (rs ! n) ''created_at'' = Inr (JStr c) \<and> attrib_get (?cs ! n) ''created_at'' = Inr c"
      by blast
  qed
  with ks rs(1) show ?thesis by blast
qed

text \<open>
  Post 2 quotes the earlier post 1, so its element is made first; the document has
  post 1 first.
\<close>

theorem output_sorted_by_created_at_witness:
  "snd (write_xml strptime_twitter tostring_flat ''tweets.xml'' (init [Inr post_b], empty_fs)) = None
   \<and> (\<exists>ks rs.
         map (sort_key_of strptime_twitter)
           (children (xml_root (fst (fst (write_xml strptime_twitter tostring_flat ''tweets.xml''
              (init [Inr post_b], empty_fs)))))) = map Inr ks \<and>
         sorted ks \<and>
         set rs \<subseteq> set (input_records [Inr post_b]) \<and>
         list_all2 (\<lambda>r e. \<exists>c. getitem r ''created_at'' = Inr (JStr c) \<and> attrib_get e ''created_at'' = Inr c)
           rs (children (xml_root (fst (fst (write_xml strptime_twitter tostring_flat ''tweets.xml''
              (init [Inr post_b], empty_fs)))))))
   \<and> map (\<lambda>e. attrib_get e ''created_at'')
        (children (xml_root (fst (fst (write_xml strptime_twitter tostring_flat ''tweets.xml''
           (init [Inr post_b], empty_fs)))))) =
      [Inr ''Mon Jan 02 15:04:05 +0000 2006'', Inr ''Tue Jan 03 09:00:00 +0000 2006'']"
proof -
  have h: "snd (write_xml strptime_twitter tostring_flat ''tweets.xml''
                  (init [Inr post_b], empty_fs)) = None"
    by code_simp
  have n: "map (\<lambda>e. attrib_get e ''created_at'')
        (children (xml_root (fst (fst (write_xml strptime_twitter tostring_flat ''tweets.xml''
           (init [Inr post_b], empty_fs)))))) =
      [Inr ''Mon Jan 02 15:04:05 +0000 2006'', Inr ''Tue Jan 03 09:00:00 +0000 2006'']"
    by code_simp
  from h n output_sorted_by_created_at [OF h] show ?thesis by simp
qed

section \<open>Retweets, truncated posts and the two identifiers\<close>

lemma resolve_key:
  "resolve tw ids = Some p \<Longrightarrow> \<exists>k. key_of tw = Inr k"
  by (subst (asm) resolve.simps) (auto split: sum.splits)

lemma resolve_seen:
  "key_of tw = Inr k \<Longrightarrow> k \<in> ids \<Longrightarrow> resolve tw ids = Some (ids, [])"
  by (subst resolve.simps) simp


lemma resolve_plain:
  "key_of tw = Inr k \<Longrightarrow> k \<notin> ids \<Longrightarrow> \<not> has_key tw ''retweeted_status'' \<Longrightarrow>
   \<not> has_key tw ''quoted_status'' \<Longrightarrow>
     resolve tw ids = (case tweet_elem tw of Inl e \<Rightarrow> None | Inr t \<Rightarrow> Some (insert k ids, [t]))"
  by (subst resolve.simps) (simp split: sum.splits)


lemma sort_tweets_single: "sort_tweets strptime [x] = Inr ys \<Longrightarrow> ys = [x]"
  by (auto simp: sort_tweets_def split: sum.splits)

lemma mset_two: "mset ys = mset [a, b] \<Longrightarrow> ys = [a, b] \<or> ys = [b, a]"
proof -
  assume m: "mset ys = mset [a, b]"
  then have "length ys = 2" by (metis length_Cons list.size(3) numeral_2_eq_2 size_mset)
  then obtain c d where ys: "ys = [c, d]"
    by (metis (no_types, opaque_lifting) One_nat_def Suc_1 length_0_conv length_Suc_conv)
  with m show ?thesis by (auto simp: add_eq_conv_ex)
qed


lemma resolve_not_retweet:
  assumes "resolve tw ids = Some (ids', els)" "key_of tw = Inr k" "k \<notin> ids"
    "\<not> has_key tw ''retweeted_status''"
  shows "\<exists>t ts. tweet_elem tw = Inr t \<and> els = t # ts"
  using assms by (subst (asm) resolve.simps) (auto split: sum.splits if_splits option.splits)

lemma add_tweet_new_elem:
  assumes "add_tweet tw st = (st', None)" "key_of tw = Inr k" "k \<notin> tweet_ids st"
    "\<not> has_key tw ''retweeted_status''"
  shows "tweet_elem tw = Inr (output_tweets st' ! length (output_tweets st))"
proof -
  from add_tweet_resolve [OF assms(1)] obtain ids els where
    r: "resolve tw (tweet_ids st) = Some (ids, els)" and
    s: "st' = st\<lparr>tweet_ids := ids, output_tweets := output_tweets st @ els\<rparr>" by auto
  from resolve_not_retweet [OF r assms(2-4)] obtain t ts where "tweet_elem tw = Inr t" "els = t # ts"
    by auto
  with s show ?thesis by simp
qed

lemma truncated_ignores_top_level:
  assumes "getitem (JObj d) ''truncated'' = Inr tr" "truthy tr"
  shows "tweet_elem (JObj ((''text'', x) # (''entities'', y) # d)) = tweet_elem (JObj d)"
proof -
  let ?tw' = "JObj ((''text'', x) # (''entities'', y) # d)"
  have h: "has_key ?tw' ''quoted_status'' = has_key (JObj d) ''quoted_status''"
    by simp
  have qs: "getitem ?tw' ''quoted_status'' = getitem (JObj d) ''quoted_status''" by simp
  have q: "quoted_from ?tw' = quoted_from (JObj d)"
    unfolding quoted_from_def h qs ..
  from assms have tr': "getitem ?tw' ''truncated'' = Inr tr" by simp
  have x: "getitem ?tw' ''extended_tweet'' = getitem (JObj d) ''extended_tweet''" by simp
  have t: "tweet_text ?tw' = tweet_text (JObj d)"
    unfolding tweet_text_def tr' assms(1) using assms(2) by (simp add: bind_err_def x)
  have e: "entities_dict ?tw' = entities_dict (JObj d)"
    unfolding entities_dict_def tr' assms(1) using assms(2) by (simp add: bind_err_def x)
  have u: "getitem ?tw' ''user'' = getitem (JObj d) ''user''" by simp
  have f: "\<And>el. fill_details el ?tw' = fill_details el (JObj d)"
    unfolding fill_details_def e u ..
  have i: "getitem ?tw' ''id_str'' = getitem (JObj d) ''id_str''" by simp
  have c: "getitem ?tw' ''created_at'' = getitem (JObj d) ''created_at''" by simp
  show ?thesis unfolding tweet_elem_def q t f i c ..
qed



text \<open>
  What the functions on elements have added when they return normally.
\<close>

lemma add_user_ok:
  assumes "add_user p u = (p', None)"
  shows "\<exists>sn i. bind_err (getitem u ''screen_name'') xml_attr = Inr sn \<and>
           bind_err (getitem u ''id_str'') xml_attr = Inr i \<and>
           p' = Elem (tag p) (attrib p) (etext p)
                  (children p @ [Elem ''user'' [(''screen_name'', sn), (''id'', i)] None []])"
  using assms
  by (auto simp: add_user_def Let_def set_attr_def append_child_def split: sum.splits)

lemma add_hashtags_ok:
  "add_hashtags d hs = (d', None) \<Longrightarrow>
     \<exists>ts. map (\<lambda>h. bind_err (getitem h ''text'') xml_text) hs = map Inr ts \<and>
          d' = Elem (tag d) (attrib d) (etext d) (children d @ map (\<lambda>t. Elem ''hashtag'' [] t []) ts)"
proof (induction hs arbitrary: d)
  case Nil
  then show ?case by simp
next
  case (Cons h hs)
  from Cons.prems obtain t where
    t: "bind_err (getitem h ''text'') xml_text = Inr t" and
    r: "add_hashtags (append_child d (Elem ''hashtag'' [] t [])) hs = (d', None)"
    by (auto split: sum.splits)
  from Cons.IH [OF r] obtain ts where
    ts: "map (\<lambda>h. bind_err (getitem h ''text'') xml_text) hs = map Inr ts" and
    d': "d' = Elem (tag d) (attrib d) (etext d)
                (children d @ Elem ''hashtag'' [] t [] # map (\<lambda>t. Elem ''hashtag'' [] t []) ts)"
    by (auto simp: append_child_def)
  from t ts d' show ?case by (intro exI [of _ "t # ts"]) simp
qed

lemma add_urls_ok:
  "add_urls d us = (d', None) \<Longrightarrow>
     \<exists>ts. map (\<lambda>u. bind_err (getitem u ''expanded_url'') xml_text) us = map Inr ts \<and>
          d' = Elem (tag d) (attrib d) (etext d) (children d @ map (\<lambda>t. Elem ''url'' [] t []) ts)"
proof (induction us arbitrary: d)
  case Nil
  then show ?case by simp
next
  case (Cons u us)
  from Cons.prems obtain t where
    t: "bind_err (getitem u ''expanded_url'') xml_text = Inr t" and
    r: "add_urls (append_child d (Elem ''url'' [] t [])) us = (d', None)"
    by (auto split: sum.splits)
  from Cons.IH [OF r] obtain ts where
    ts: "map (\<lambda>u. bind_err (getitem u ''expanded_url'') xml_text) us = map Inr ts" and
    d': "d' = Elem (tag d) (attrib d) (etext d)
                (children d @ Elem ''url'' [] t [] # map (\<lambda>t. Elem ''url'' [] t []) ts)"
    by (auto simp: append_child_def)
  from t ts d' show ?case by (intro exI [of _ "t # ts"]) simp
qed

lemma add_mentions_ok:
  "add_mentions m ms = (m', None) \<Longrightarrow>
     \<exists>ns. map (\<lambda>u. (bind_err (getitem u ''screen_name'') xml_attr,
                     bind_err (getitem u ''id_str'') xml_attr)) ms =
            map (\<lambda>(sn, i). (Inr sn, Inr i)) ns \<and>
          m' = Elem (tag m) (attrib m) (etext m)
                 (children m @
                  map (\<lambda>(sn, i). Elem ''user'' [(''screen_name'', sn), (''id'', i)] None []) ns)"
proof (induction ms arbitrary: m)
  case Nil
  then show ?case by simp
next
  case (Cons u us)
  obtain m1 r1 where a: "add_user m u = (m1, r1)" by (cases "add_user m u") auto
  with Cons.prems have r1: "r1 = None" by (cases r1) auto
  with a Cons.prems have r: "add_mentions m1 us = (m', None)" by simp
  from add_user_ok [OF a [unfolded r1]] obtain sn i where
    sn: "bind_err (getitem u ''screen_name'') xml_attr = Inr sn" and
    i: "bind_err (getitem u ''id_str'') xml_attr = Inr i" and
    m1: "m1 = Elem (tag m) (attrib m) (etext m)
                (children m @ [Elem ''user'' [(''screen_name'', sn), (''id'', i)] None []])"
    by auto
  from Cons.IH [OF r] obtain ns where
    ns: "map (\<lambda>u. (bind_err (getitem u ''screen_name'') xml_attr,
                     bind_err (getitem u ''id_str'') xml_attr)) us =
            map (\<lambda>(sn, i). (Inr sn, Inr i)) ns" and
    m': "m' = Elem (tag m1) (attrib m1) (etext m1)
                 (children m1 @
                  map (\<lambda>(sn, i). Elem ''user'' [(''screen_name'', sn), (''id'', i)] None []) ns)"
    by auto
  from sn i ns m' m1 show ?case by (intro exI [of _ "(sn, i) # ns"]) simp
qed

lemma fill_entities_ok:
  assumes "fill_entities d1 ents = (d, None)"
  shows "\<exists>hs ms us hts mus uts.
           bind_err (getitem ents ''hashtags'') py_iter = Inr hs \<and>
           map (\<lambda>h. bind_err (getitem h ''text'') xml_text) hs = map Inr hts \<and>
           bind_err (getitem ents ''user_mentions'') py_iter = Inr ms \<and>
           map (\<lambda>u. (bind_err (getitem u ''screen_name'') xml_attr,
                      bind_err (getitem u ''id_str'') xml_attr)) ms =
             map (\<lambda>(sn, i). (Inr sn, Inr i)) mus \<and>
           bind_err (getitem ents ''urls'') py_iter = Inr us \<and>
           map (\<lambda>u. bind_err (getitem u ''expanded_url'') xml_text) us = map Inr uts \<and>
           d = Elem (tag d1) (attrib d1) (etext d1)
                 (children d1 @ map (\<lambda>t. Elem ''hashtag'' [] t []) hts @
                  [Elem ''user_mentions'' [] None
                     (map (\<lambda>(sn, i). Elem ''user'' [(''screen_name'', sn), (''id'', i)] None []) mus)] @
                  map (\<lambda>t. Elem ''url'' [] t []) uts)"
proof -
  from assms obtain hs where hs: "bind_err (getitem ents ''hashtags'') py_iter = Inr hs"
    by (cases "bind_err (getitem ents ''hashtags'') py_iter") (auto simp: fill_entities_def)
  obtain d2 r2 where ah: "add_hashtags d1 hs = (d2, r2)" by (cases "add_hashtags d1 hs") auto
  from assms hs ah have r2: "r2 = None" by (cases r2) (auto simp: fill_entities_def)
  from assms hs ah r2 obtain ms where ms: "bind_err (getitem ents ''user_mentions'') py_iter = Inr ms"
    by (cases "bind_err (getitem ents ''user_mentions'') py_iter") (auto simp: fill_entities_def Let_def)
  obtain m r3 where am: "add_mentions (Elem ''user_mentions'' [] None []) ms = (m, r3)"
    by (cases "add_mentions (Elem ''user_mentions'' [] None []) ms") auto
  from assms hs ah r2 ms am have r3: "r3 = None"
    by (cases r3) (auto simp: fill_entities_def Let_def)
  from assms hs ah r2 ms am r3 obtain us where us: "bind_err (getitem ents ''urls'') py_iter = Inr us"
    by (cases "bind_err (getitem ents ''urls'') py_iter") (auto simp: fill_entities_def Let_def)
  from assms hs ah r2 ms am r3 us have au: "add_urls (append_child d2 m) us = (d, None)"
    by (simp add: fill_entities_def Let_def)
  from add_hashtags_ok [OF ah [unfolded r2]] obtain hts where
    hts: "map (\<lambda>h. bind_err (getitem h ''text'') xml_text) hs = map Inr hts" and
    d2: "d2 = Elem (tag d1) (attrib d1) (etext d1) (children d1 @ map (\<lambda>t. Elem ''hashtag'' [] t []) hts)"
    by auto
  from add_mentions_ok [OF am [unfolded r3]] obtain mus where
    mus: "map (\<lambda>u. (bind_err (getitem u ''screen_name'') xml_attr,
                      bind_err (getitem u ''id_str'') xml_attr)) ms =
             map (\<lambda>(sn, i). (Inr sn, Inr i)) mus" and
    m: "m = Elem ''user_mentions'' [] None
              (map (\<lambda>(sn, i). Elem ''user'' [(''screen_name'', sn), (''id'', i)] None []) mus)"
    by auto
  from add_urls_ok [OF au] obtain uts where
    uts: "map (\<lambda>u. bind_err (getitem u ''expanded_url'') xml_text) us = map Inr uts" and
    d: "d = Elem (tag (append_child d2 m)) (attrib (append_child d2 m)) (etext (append_child d2 m))
              (children (append_child d2 m) @ map (\<lambda>t. Elem ''url'' [] t []) uts)"
    by auto
  from d d2 m have "d = Elem (tag d1) (attrib d1) (etext d1)
                 (children d1 @ map (\<lambda>t. Elem ''hashtag'' [] t []) hts @
                  [Elem ''user_mentions'' [] None
                     (map (\<lambda>(sn, i). Elem ''user'' [(''screen_name'', sn), (''id'', i)] None []) mus)] @
                  map (\<lambda>t. Elem ''url'' [] t []) uts)"
    by (simp add: append_child_def)
  with hs hts ms mus us uts show ?thesis by blast
qed

text \<open>
  The element of a new record that is no retweet: where its body text and its entities
  are read from.
\<close>

lemma new_elem_sources:
  assumes "add_tweet (JObj dict) st = (st', None)"
    and "key_of (JObj dict) = Inr k" and "k \<notin> tweet_ids st"
    and "\<not> has_key (JObj dict) ''retweeted_status''"
  shows "\<exists>tr src_text src_entities bt u d1 d.
           getitem (JObj dict) ''truncated'' = Inr tr \<and>
           (if truthy tr
            then bind_err (getitem (JObj dict) ''extended_tweet'') (\<lambda>x. getitem x ''full_text'') = Inr src_text \<and>
                 bind_err (getitem (JObj dict) ''extended_tweet'') (\<lambda>x. getitem x ''entities'') = Inr src_entities \<and>
                 (\<forall>x y. tweet_elem (JObj ((''text'', x) # (''entities'', y) # dict)) = tweet_elem (JObj dict))
            else getitem (JObj dict) ''text'' = Inr src_text \<and>
                 getitem (JObj dict) ''entities'' = Inr src_entities) \<and>
           xml_text src_text = Inr bt \<and>
           getitem (JObj dict) ''user'' = Inr u \<and>
           add_user (Elem ''details'' [] None []) u = (d1, None) \<and>
           fill_entities d1 src_entities = (d, None) \<and>
           children (output_tweets st' ! length (output_tweets st)) = [Elem ''body'' [] bt [], d]"
proof -
  let ?tw = "JObj dict"
  let ?e = "output_tweets st' ! length (output_tweets st)"
  from add_tweet_new_elem [OF assms] have te: "tweet_elem ?tw = Inr ?e" .
  from tweet_elem_fields [OF te] obtain bt d where
    bt: "bind_err (tweet_text ?tw) xml_text = Inr bt" and
    d: "fill_details (Elem ''details'' [] None []) ?tw = (d, None)" and
    ch: "children ?e = [Elem ''body'' [] bt [], d]"
    by auto
  from bt obtain tr where tr: "getitem ?tw ''truncated'' = Inr tr"
    by (cases "getitem ?tw ''truncated''") (auto simp: tweet_text_def bind_err_def)
  from bt tr obtain src_text where
    st: "(if truthy tr then bind_err (getitem ?tw ''extended_tweet'') (\<lambda>x. getitem x ''full_text'')
          else getitem ?tw ''text'') = Inr src_text" and xt: "xml_text src_text = Inr bt"
    by (auto simp: tweet_text_def bind_err_def split: sum.splits if_splits)
  from d obtain u where u: "getitem ?tw ''user'' = Inr u"
    by (cases "getitem ?tw ''user''") (auto simp: fill_details_def)
  obtain d1 r1 where au: "add_user (Elem ''details'' [] None []) u = (d1, r1)"
    by (cases "add_user (Elem ''details'' [] None []) u") auto
  from d u au have r1: "r1 = None"
    by (cases r1) (auto simp: fill_details_def)
  from d u au r1 tr obtain src_entities where
    se: "(if truthy tr then bind_err (getitem ?tw ''extended_tweet'') (\<lambda>x. getitem x ''entities'')
          else getitem ?tw ''entities'') = Inr src_entities" and fe: "fill_entities d1 src_entities = (d, None)"
    by (auto simp: fill_details_def entities_dict_def bind_err_def split: sum.splits if_splits)
  show ?thesis
  proof (cases "truthy tr")
    case True
    with truncated_ignores_top_level [OF tr True] tr st se xt u au r1 fe ch show ?thesis
      by (intro exI [of _ tr] exI [of _ src_text] exI [of _ src_entities] exI [of _ bt]
          exI [of _ u] exI [of _ d1] exI [of _ d]) simp
  next
    case False
    with tr st se xt u au r1 fe ch show ?thesis
      by (intro exI [of _ tr] exI [of _ src_text] exI [of _ src_entities] exI [of _ bt]
          exI [of _ u] exI [of _ d1] exI [of _ d]) simp
  qed
qed

text \<open>
  C6. For a record that gets an element (its id is new, it is no retweet, and
  \<^verbatim>\<open>add_tweet\<close> returns normally): when \<^verbatim>\<open>truncated\<close> is true the body text is
  \<^verbatim>\<open>extended_tweet.full_text\<close> and the details are built from
  \<^verbatim>\<open>extended_tweet.entities\<close>, and the top-level \<^verbatim>\<open>text\<close> and \<^verbatim>\<open>entities\<close> can be
  replaced by anything without changing the element; when \<^verbatim>\<open>truncated\<close> is false the
  body text is the top-level \<^verbatim>\<open>text\<close> and the details are built from the top-level
  \<^verbatim>\<open>entities\<close>. Built from an entities dict means: under \<^verbatim>\<open><details>\<close>, after the
  author, one \<^verbatim>\<open><hashtag>\<close> with the \<^verbatim>\<open>text\<close> of each of its \<^verbatim>\<open>hashtags\<close>, then
  \<^verbatim>\<open><user_mentions>\<close> with one \<^verbatim>\<open><user>\<close> (screen name and \<^verbatim>\<open>id_str\<close>) for each of its
  \<^verbatim>\<open>user_mentions\<close>, then one \<^verbatim>\<open><url>\<close> with the \<^verbatim>\<open>expanded_url\<close> of each of its
  \<^verbatim>\<open>urls\<close>, in the order of the lists.
\<close>

theorem truncated_selects_extended:
  assumes "add_tweet (JObj dict) st = (st', None)"
    and "key_of (JObj dict) = Inr k" and "k \<notin> tweet_ids st"
    and "\<not> has_key (JObj dict) ''retweeted_status''"
  shows "\<exists>tr src_text src_entities bt u sn i hs hts ms mus us uts.
           getitem (JObj dict) ''truncated'' = Inr tr \<and>
           (if truthy tr
            then bind_err (getitem (JObj dict) ''extended_tweet'') (\<lambda>x. getitem x ''full_text'') = Inr src_text \<and>
                 bind_err (getitem (JObj dict) ''extended_tweet'') (\<lambda>x. getitem x ''entities'') = Inr src_entities \<and>
                 (\<forall>x y. tweet_elem (JObj ((''text'', x) # (''entities'', y) # dict)) = tweet_elem (JObj dict))
            else getitem (JObj dict) ''text'' = Inr src_text \<and>
                 getitem (JObj dict) ''entities'' = Inr src_entities) \<and>
           xml_text src_text = Inr bt \<and>
           getitem (JObj dict) ''user'' = Inr u \<and>
           bind_err (getitem u ''screen_name'') xml_attr = Inr sn \<and>
           bind_err (getitem u ''id_str'') xml_attr = Inr i \<and>
           bind_err (getitem src_entities ''hashtags'') py_iter = Inr hs \<and>
           map (\<lambda>h. bind_err (getitem h ''text'') xml_text) hs = map Inr hts \<and>
           bind_err (getitem src_entities ''user_mentions'') py_iter = Inr ms \<and>
           map (\<lambda>m. (bind_err (getitem m ''screen_name'') xml_attr,
                      bind_err (getitem m ''id_str'') xml_attr)) ms =
             map (\<lambda>(msn, mi). (Inr msn, Inr mi)) mus \<and>
           bind_err (getitem src_entities ''urls'') py_iter = Inr us \<and>
           map (\<lambda>l. bind_err (getitem l ''expanded_url'') xml_text) us = map Inr uts \<and>
           children (output_tweets st' ! length (output_tweets st)) =
             [Elem ''body'' [] bt [],
              Elem ''details'' [] None
                (Elem ''user'' [(''screen_name'', sn), (''id'', i)] None [] #
                 map (\<lambda>t. Elem ''hashtag'' [] t []) hts @
                 [Elem ''user_mentions'' [] None
                    (map (\<lambda>(msn, mi). Elem ''user'' [(''screen_name'', msn), (''id'', mi)] None []) mus)] @
                 map (\<lambda>t. Elem ''url'' [] t []) uts)]"
proof -
  from new_elem_sources [OF assms] obtain tr src_text src_entities bt u d1 d where
    tr: "getitem (JObj dict) ''truncated'' = Inr tr" and
    sel: "if truthy tr
            then bind_err (getitem (JObj dict) ''extended_tweet'') (\<lambda>x. getitem x ''full_text'') = Inr src_text \<and>
                 bind_err (getitem (JObj dict) ''extended_tweet'') (\<lambda>x. getitem x ''entities'') = Inr src_entities \<and>
                 (\<forall>x y. tweet_elem (JObj ((''text'', x) # (''entities'', y) # dict)) = tweet_elem (JObj dict))
            else getitem (JObj dict) ''text'' = Inr src_text \<and>
                 getitem (JObj dict) ''entities'' = Inr src_entities" and
    bt: "xml_text src_text = Inr bt" and
    u: "getitem (JObj dict) ''user'' = Inr u" and
    au: "add_user (Elem ''details'' [] None []) u = (d1, None)" and
    fe: "fill_entities d1 src_entities = (d, None)" and
    ch: "children (output_tweets st' ! length (output_tweets st)) = [Elem ''body'' [] bt [], d]"
    by blast
  from add_user_ok [OF au] obtain sn i where
    sn: "bind_err (getitem u ''screen_name'') xml_attr = Inr sn" and
    i: "bind_err (getitem u ''id_str'') xml_attr = Inr i" and
    d1: "d1 = Elem ''details'' [] None [Elem ''user'' [(''screen_name'', sn), (''id'', i)] None []]"
    by auto
  from fill_entities_ok [OF fe] obtain hs ms us hts mus uts where
    hs: "bind_err (getitem src_entities ''hashtags'') py_iter = Inr hs" and
    hts: "map (\<lambda>h. bind_err (getitem h ''text'') xml_text) hs = map Inr hts" and
    ms: "bind_err (getitem src_entities ''user_mentions'') py_iter = Inr ms" and
    mus: "map (\<lambda>m. (bind_err (getitem m ''screen_name'') xml_attr,
                      bind_err (getitem m ''id_str'') xml_attr)) ms =
             map (\<lambda>(msn, mi). (Inr msn, Inr mi)) mus" and
    us: "bind_err (getitem src_entities ''urls'') py_iter = Inr us" and
    uts: "map (\<lambda>l. bind_err (getitem l ''expanded_url'') xml_text) us = map Inr uts" and
    d: "d = Elem (tag d1) (attrib d1) (etext d1)
                 (children d1 @ map (\<lambda>t. Elem ''hashtag'' [] t []) hts @
                  [Elem ''user_mentions'' [] None
                     (map (\<lambda>(msn, mi). Elem ''user'' [(''screen_name'', msn), (''id'', mi)] None []) mus)] @
                  map (\<lambda>t. Elem ''url'' [] t []) uts)"
    by blast
  from d d1 ch have ch': "children (output_tweets st' ! length (output_tweets st)) =
             [Elem ''body'' [] bt [],
              Elem ''details'' [] None
                (Elem ''user'' [(''screen_name'', sn), (''id'', i)] None [] #
                 map (\<lambda>t. Elem ''hashtag'' [] t []) hts @
                 [Elem ''user_mentions'' [] None
                    (map (\<lambda>(msn, mi). Elem ''user'' [(''screen_name'', msn), (''id'', mi)] None []) mus)] @
                 map (\<lambda>t. Elem ''url'' [] t []) uts)]"
    by simp
  from tr sel bt u sn i hs hts ms mus us uts ch' show ?thesis by blast
qed

text \<open>
  A truncated record with the text \<^verbatim>\<open>hello\<close> and the hashtag \<^verbatim>\<open>short\<close> at top
  level, and under \<^verbatim>\<open>extended_tweet\<close> the full text \<^verbatim>\<open>hello world foo\<close>, the hashtag
  \<^verbatim>\<open>isabelle\<close>, a mention of \<^verbatim>\<open>bob\<close> and a link: the element has the full text and
  the hashtag, the mention and the link of \<^verbatim>\<open>extended_tweet\<close>, and the document counts
  3 words.
\<close>

theorem truncated_selects_extended_witness:
  "add_tweet (JObj truncated_fields) (init []) = (fst (add_tweet (JObj truncated_fields) (init [])), None)
   \<and> key_of (JObj truncated_fields) = Inr (JInt 5) \<and> JInt 5 \<notin> tweet_ids (init [])
   \<and> \<not> has_key (JObj truncated_fields) ''retweeted_status''
   \<and> (\<exists>tr src_text src_entities bt u sn i hs hts ms mus us uts.
           getitem (JObj truncated_fields) ''truncated'' = Inr tr \<and>
           (if truthy tr
            then bind_err (getitem (JObj truncated_fields) ''extended_tweet'') (\<lambda>x. getitem x ''full_text'') = Inr src_text \<and>
                 bind_err (getitem (JObj truncated_fields) ''extended_tweet'') (\<lambda>x. getitem x ''entities'') = Inr src_entities \<and>
                 (\<forall>x y. tweet_elem (JObj ((''text'', x) # (''entities'', y) # truncated_fields)) =
                         tweet_elem (JObj truncated_fields))
            else getitem (JObj truncated_fields) ''text'' = Inr src_text \<and>
                 getitem (JObj truncated_fields) ''entities'' = Inr src_entities) \<and>
           xml_text src_text = Inr bt \<and>
           getitem (JObj truncated_fields) ''user'' = Inr u \<and>
           bind_err (getitem u ''screen_name'') xml_attr = Inr sn \<and>
           bind_err (getitem u ''id_str'') xml_attr = Inr i \<and>
           bind_err (getitem src_entities ''hashtags'') py_iter = Inr hs \<and>
           map (\<lambda>h. bind_err (getitem h ''text'') xml_text) hs = map Inr hts \<and>
           bind_err (getitem src_entities ''user_mentions'') py_iter = Inr ms \<and>
           map (\<lambda>m. (bind_err (getitem m ''screen_name'') xml_attr,
                      bind_err (getitem m ''id_str'') xml_attr)) ms =
             map (\<lambda>(msn, mi). (Inr msn, Inr mi)) mus \<and>
           bind_err (getitem src_entities ''urls'') py_iter = Inr us \<and>
           map (\<lambda>l. bind_err (getitem l ''expanded_url'') xml_text) us = map Inr uts \<and>
           children (output_tweets (fst (add_tweet (JObj truncated_fields) (init []))) !
                       length (output_tweets (init []))) =
             [Elem ''body'' [] bt [],
              Elem ''details'' [] None
                (Elem ''user'' [(''screen_name'', sn), (''id'', i)] None [] #
                 map (\<lambda>t. Elem ''hashtag'' [] t []) hts @
                 [Elem ''user_mentions'' [] None
                    (map (\<lambda>(msn, mi). Elem ''user'' [(''screen_name'', msn), (''id'', mi)] None []) mus)] @
                 map (\<lambda>t. Elem ''url'' [] t []) uts)])
   \<and> output_tweets (fst (add_tweet (JObj truncated_fields) (init []))) =
        [Elem ''tweet'' [(''id'', ''5''), (''created_at'', ''Thu Jan 05 12:00:00 +0000 2006'')] None
           [Elem ''body'' [] (Some ''hello world foo'') [],
            Elem ''details'' [] None
              [Elem ''user'' [(''screen_name'', ''ann''), (''id'', ''10'')] None [],
               Elem ''hashtag'' [] (Some ''isabelle'') [],
               Elem ''user_mentions'' [] None
                 [Elem ''user'' [(''screen_name'', ''bob''), (''id'', ''11'')] None []],
               Elem ''url'' [] (Some ''http://example.org/'') []]]]
   \<and> map etext (bodies (xml_root (fst (fst (write_xml strptime_twitter tostring_flat ''tweets.xml''
         (init [Inr (JObj truncated_fields)], empty_fs)))))) = [Some ''hello world foo'']
   \<and> word_count (xml_root (fst (fst (write_xml strptime_twitter tostring_flat ''tweets.xml''
         (init [Inr (JObj truncated_fields)], empty_fs))))) = Inr 3"
proof -
  have 0: "snd (add_tweet (JObj truncated_fields) (init [])) = None" by code_simp
  have 1: "add_tweet (JObj truncated_fields) (init []) =
             (fst (add_tweet (JObj truncated_fields) (init [])), None)"
    using 0 by (metis prod.collapse)
  have 2: "key_of (JObj truncated_fields) = Inr (JInt 5)" by code_simp
  have 3: "JInt 5 \<notin> tweet_ids (init [])" by code_simp
  have 4: "\<not> has_key (JObj truncated_fields) ''retweeted_status''" by code_simp
  have 5: "map etext (bodies (xml_root (fst (fst (write_xml strptime_twitter tostring_flat ''tweets.xml''
         (init [Inr (JObj truncated_fields)], empty_fs)))))) = [Some ''hello world foo'']" by code_simp
  have 6: "word_count (xml_root (fst (fst (write_xml strptime_twitter tostring_flat ''tweets.xml''
         (init [Inr (JObj truncated_fields)], empty_fs))))) = Inr 3" by code_simp
  have 7: "output_tweets (fst (add_tweet (JObj truncated_fields) (init []))) =
        [Elem ''tweet'' [(''id'', ''5''), (''created_at'', ''Thu Jan 05 12:00:00 +0000 2006'')] None
           [Elem ''body'' [] (Some ''hello world foo'') [],
            Elem ''details'' [] None
              [Elem ''user'' [(''screen_name'', ''ann''), (''id'', ''10'')] None [],
               Elem ''hashtag'' [] (Some ''isabelle'') [],
               Elem ''user_mentions'' [] None
                 [Elem ''user'' [(''screen_name'', ''bob''), (''id'', ''11'')] None []],
               Elem ''url'' [] (Some ''http://example.org/'') []]]]" by code_simp
  note t = truncated_selects_extended [OF 1 2 3 4]
  show ?thesis
    apply (intro conjI)
    apply (rule 1)
    apply (rule 2)
    apply (rule 3)
    apply (rule 4)
    apply (rule t)
    apply (rule 7)
    apply (rule 5)
    apply (rule 6)
    done
qed

text \<open>
  C9. Duplicates are found by \<^verbatim>\<open>id\<close>, the \<^verbatim>\<open>id\<close> attribute is \<^verbatim>\<open>id_str\<close>. Of two
  ordinary posts on two lines with the same \<^verbatim>\<open>id\<close>, only the first gets an element,
  whatever the \<^verbatim>\<open>id_str\<close> of the second; two ordinary posts with different \<^verbatim>\<open>id\<close>
  and the same \<^verbatim>\<open>id_str\<close> both get an element, and the two elements carry the same
  \<^verbatim>\<open>id\<close> attribute.
\<close>

theorem dedup_by_id_not_id_str:
  "(key_of r2 = key_of r1 \<and> \<not> has_key r1 ''retweeted_status'' \<and> \<not> has_key r1 ''quoted_status'' \<and>
    snd (write_xml strptime tostring output (init [Inr r1, Inr r2], fs)) = None \<longrightarrow>
      (\<exists>t1. tweet_elem r1 = Inr t1 \<and>
         attrib_get t1 ''id'' = bind_err (getitem r1 ''id_str'') xml_attr \<and>
         children (xml_root (fst (fst (write_xml strptime tostring output (init [Inr r1, Inr r2], fs))))) = [t1]))
   \<and> (key_of r2 \<noteq> key_of r1 \<and> getitem r2 ''id_str'' = getitem r1 ''id_str'' \<and>
       \<not> has_key r1 ''retweeted_status'' \<and> \<not> has_key r1 ''quoted_status'' \<and>
       \<not> has_key r2 ''retweeted_status'' \<and> \<not> has_key r2 ''quoted_status'' \<and>
       snd (write_xml strptime tostring output (init [Inr r1, Inr r2], fs)) = None \<longrightarrow>
      (\<exists>t1 t2. tweet_elem r1 = Inr t1 \<and> tweet_elem r2 = Inr t2 \<and>
         attrib_get t1 ''id'' = attrib_get t2 ''id'' \<and>
         attrib_get t1 ''id'' = bind_err (getitem r1 ''id_str'') xml_attr \<and>
         (children (xml_root (fst (fst (write_xml strptime tostring output (init [Inr r1, Inr r2], fs))))) = [t1, t2] \<or>
          children (xml_root (fst (fst (write_xml strptime tostring output (init [Inr r1, Inr r2], fs))))) = [t2, t1])))"
proof (intro conjI impI)
  let ?w = "write_xml strptime tostring output (init [Inr r1, Inr r2], fs)"
  assume a: "key_of r2 = key_of r1 \<and> \<not> has_key r1 ''retweeted_status'' \<and> \<not> has_key r1 ''quoted_status'' \<and>
    snd ?w = None"
  then have ok: "snd ?w = None" by simp
  from write_xml_init_ok [OF ok] obtain ids els ys where
    r: "resolve_all [Inr r1, Inr r2] {} = Some (ids, els)" and
    s: "sort_tweets strptime els = Inr ys" and
    c: "children (xml_root (fst (fst ?w))) = ys"
    by auto
  from r obtain ids1 ts1 ts2 where
    ra: "resolve r1 {} = Some (ids1, ts1)" and rb: "resolve r2 ids1 = Some (ids, ts2)" and
    els: "els = ts1 @ ts2"
    by (auto split: option.splits)
  from resolve_key [OF ra] obtain k1 where k1: "key_of r1 = Inr k1" by auto
  from resolve_plain [OF k1, of "{}"] a ra obtain t1 where
    t1: "tweet_elem r1 = Inr t1" and ts1: "ts1 = [t1]" and ids1: "ids1 = {k1}"
    by (auto split: sum.splits)
  from a k1 have "key_of r2 = Inr k1" by simp
  from resolve_seen [OF this, of ids1] ids1 rb have "ts2 = []" by simp
  with s els ts1 have "ys = [t1]" by (simp add: sort_tweets_single)
  with c t1 tweet_elem_attrib(1) [OF t1]
  show "\<exists>t1. tweet_elem r1 = Inr t1 \<and>
         attrib_get t1 ''id'' = bind_err (getitem r1 ''id_str'') xml_attr \<and>
         children (xml_root (fst (fst ?w))) = [t1]"
    by simp
next
  let ?w = "write_xml strptime tostring output (init [Inr r1, Inr r2], fs)"
  assume a: "key_of r2 \<noteq> key_of r1 \<and> getitem r2 ''id_str'' = getitem r1 ''id_str'' \<and>
       \<not> has_key r1 ''retweeted_status'' \<and> \<not> has_key r1 ''quoted_status'' \<and>
       \<not> has_key r2 ''retweeted_status'' \<and> \<not> has_key r2 ''quoted_status'' \<and>
       snd ?w = None"
  then have ok: "snd ?w = None" by simp
  from write_xml_init_ok [OF ok] obtain ids els ys where
    r: "resolve_all [Inr r1, Inr r2] {} = Some (ids, els)" and
    s: "sort_tweets strptime els = Inr ys" and
    c: "children (xml_root (fst (fst ?w))) = ys"
    by auto
  from r obtain ids1 ts1 ts2 where
    ra: "resolve r1 {} = Some (ids1, ts1)" and rb: "resolve r2 ids1 = Some (ids, ts2)" and
    els: "els = ts1 @ ts2"
    by (auto split: option.splits)
  from resolve_key [OF ra] obtain k1 where k1: "key_of r1 = Inr k1" by auto
  from resolve_key [OF rb] obtain k2 where k2: "key_of r2 = Inr k2" by auto
  from resolve_plain [OF k1, of "{}"] a ra obtain t1 where
    t1: "tweet_elem r1 = Inr t1" and ts1: "ts1 = [t1]" and ids1: "ids1 = {k1}"
    by (auto split: sum.splits)
  from a k1 k2 ids1 have "k2 \<notin> ids1" by auto
  from resolve_plain [OF k2 this] a rb obtain t2 where
    t2: "tweet_elem r2 = Inr t2" and ts2: "ts2 = [t2]"
    by (auto split: sum.splits)
  from sort_tweets_sorted(1) [OF s] els ts1 ts2 have "mset ys = mset [t1, t2]" by simp
  from mset_two [OF this] c
  have o: "children (xml_root (fst (fst ?w))) = [t1, t2] \<or> children (xml_root (fst (fst ?w))) = [t2, t1]"
    by simp
  from a tweet_elem_attrib(1) [OF t1] tweet_elem_attrib(1) [OF t2]
  have "attrib_get t1 ''id'' = attrib_get t2 ''id''" by simp
  with t1 t2 o tweet_elem_attrib(1) [OF t1]
  show "\<exists>t1 t2. tweet_elem r1 = Inr t1 \<and> tweet_elem r2 = Inr t2 \<and>
         attrib_get t1 ''id'' = attrib_get t2 ''id'' \<and>
         attrib_get t1 ''id'' = bind_err (getitem r1 ''id_str'') xml_attr \<and>
         (children (xml_root (fst (fst ?w))) = [t1, t2] \<or>
          children (xml_root (fst (fst ?w))) = [t2, t1])"
    by blast
qed

theorem dedup_by_id_not_id_str_witness:
  "key_of same_id_other_str = key_of post_a
   \<and> getitem same_id_other_str ''id_str'' \<noteq> getitem post_a ''id_str''
   \<and> key_of other_id_same_str \<noteq> key_of post_a
   \<and> getitem other_id_same_str ''id_str'' = getitem post_a ''id_str''
   \<and> \<not> has_key post_a ''retweeted_status'' \<and> \<not> has_key post_a ''quoted_status''
   \<and> \<not> has_key other_id_same_str ''retweeted_status'' \<and> \<not> has_key other_id_same_str ''quoted_status''
   \<and> snd (write_xml strptime_twitter tostring_flat ''tweets.xml''
            (init [Inr post_a, Inr same_id_other_str], empty_fs)) = None
   \<and> snd (write_xml strptime_twitter tostring_flat ''tweets.xml''
            (init [Inr post_a, Inr other_id_same_str], empty_fs)) = None
   \<and> (\<exists>t1. tweet_elem post_a = Inr t1 \<and>
         attrib_get t1 ''id'' = bind_err (getitem post_a ''id_str'') xml_attr \<and>
         children (xml_root (fst (fst (write_xml strptime_twitter tostring_flat ''tweets.xml''
            (init [Inr post_a, Inr same_id_other_str], empty_fs))))) = [t1])
   \<and> (\<exists>t1 t2. tweet_elem post_a = Inr t1 \<and> tweet_elem other_id_same_str = Inr t2 \<and>
         attrib_get t1 ''id'' = attrib_get t2 ''id'' \<and>
         attrib_get t1 ''id'' = bind_err (getitem post_a ''id_str'') xml_attr \<and>
         (children (xml_root (fst (fst (write_xml strptime_twitter tostring_flat ''tweets.xml''
            (init [Inr post_a, Inr other_id_same_str], empty_fs))))) = [t1, t2] \<or>
          children (xml_root (fst (fst (write_xml strptime_twitter tostring_flat ''tweets.xml''
            (init [Inr post_a, Inr other_id_same_str], empty_fs))))) = [t2, t1]))
   \<and> map (\<lambda>e. attrib_get e ''id'')
        (children (xml_root (fst (fst (write_xml strptime_twitter tostring_flat ''tweets.xml''
           (init [Inr post_a, Inr same_id_other_str], empty_fs)))))) = [Inr ''1'']
   \<and> map (\<lambda>e. attrib_get e ''id'')
        (children (xml_root (fst (fst (write_xml strptime_twitter tostring_flat ''tweets.xml''
           (init [Inr post_a, Inr other_id_same_str], empty_fs)))))) = [Inr ''1'', Inr ''1'']"
proof -
  have 1: "key_of same_id_other_str = key_of post_a" by code_simp
  have 2: "getitem same_id_other_str ''id_str'' \<noteq> getitem post_a ''id_str''" by code_simp
  have 3: "key_of other_id_same_str \<noteq> key_of post_a" by code_simp
  have 4: "getitem other_id_same_str ''id_str'' = getitem post_a ''id_str''" by code_simp
  have 5: "\<not> has_key post_a ''retweeted_status''" "\<not> has_key post_a ''quoted_status''"
    "\<not> has_key other_id_same_str ''retweeted_status''" "\<not> has_key other_id_same_str ''quoted_status''"
    by code_simp+
  have 6: "snd (write_xml strptime_twitter tostring_flat ''tweets.xml''
            (init [Inr post_a, Inr same_id_other_str], empty_fs)) = None" by code_simp
  have 7: "snd (write_xml strptime_twitter tostring_flat ''tweets.xml''
            (init [Inr post_a, Inr other_id_same_str], empty_fs)) = None" by code_simp
  have 8: "map (\<lambda>e. attrib_get e ''id'')
        (children (xml_root (fst (fst (write_xml strptime_twitter tostring_flat ''tweets.xml''
           (init [Inr post_a, Inr same_id_other_str], empty_fs)))))) = [Inr ''1'']" by code_simp
  have 9: "map (\<lambda>e. attrib_get e ''id'')
        (children (xml_root (fst (fst (write_xml strptime_twitter tostring_flat ''tweets.xml''
           (init [Inr post_a, Inr other_id_same_str], empty_fs)))))) = [Inr ''1'', Inr ''1'']" by code_simp
  note a = dedup_by_id_not_id_str [of same_id_other_str post_a strptime_twitter tostring_flat
      "''tweets.xml''" empty_fs, THEN conjunct1, rule_format]
  note b = dedup_by_id_not_id_str [of other_id_same_str post_a strptime_twitter tostring_flat
      "''tweets.xml''" empty_fs, THEN conjunct2, rule_format]
  have A: "\<exists>t1. tweet_elem post_a = Inr t1 \<and>
         attrib_get t1 ''id'' = bind_err (getitem post_a ''id_str'') xml_attr \<and>
         children (xml_root (fst (fst (write_xml strptime_twitter tostring_flat ''tweets.xml''
            (init [Inr post_a, Inr same_id_other_str], empty_fs))))) = [t1]"
    using a 1 5 6 by blast
  have B: "\<exists>t1 t2. tweet_elem post_a = Inr t1 \<and> tweet_elem other_id_same_str = Inr t2 \<and>
         attrib_get t1 ''id'' = attrib_get t2 ''id'' \<and>
         attrib_get t1 ''id'' = bind_err (getitem post_a ''id_str'') xml_attr \<and>
         (children (xml_root (fst (fst (write_xml strptime_twitter tostring_flat ''tweets.xml''
            (init [Inr post_a, Inr other_id_same_str], empty_fs))))) = [t1, t2] \<or>
          children (xml_root (fst (fst (write_xml strptime_twitter tostring_flat ''tweets.xml''
            (init [Inr post_a, Inr other_id_same_str], empty_fs))))) = [t2, t1])"
    using b 3 4 5 7 by blast
  from 1 2 3 4 5 6 7 8 9 A B show ?thesis by blast
qed

section \<open>Quoted posts\<close>

lemma seen_inv_mono: "seen_inv R ids E \<Longrightarrow> set E \<subseteq> set E' \<Longrightarrow> seen_inv R ids E'"
  unfolding seen_inv_def by (meson subsetD)

lemma seen_inv_insert_retweet:
  "seen_inv R ids E \<Longrightarrow> r \<in> R \<Longrightarrow> key_of r = Inr k \<Longrightarrow> has_key r ''retweeted_status'' \<Longrightarrow>
     seen_inv R (insert k ids) E"
  unfolding seen_inv_def by auto

lemma seen_inv_insert_elem:
  assumes "seen_inv R ids E" "r \<in> R" "key_of r = Inr k" "tweet_elem r = Inr t"
  shows "seen_inv R (insert k ids) (E @ [t])"
proof -
  from assms(1) have "seen_inv R ids (E @ [t])" by (rule seen_inv_mono) auto
  with assms(2-4) show ?thesis unfolding seen_inv_def by auto
qed

lemma quoted_in_mono: "quoted_in els E \<Longrightarrow> set E \<subseteq> set E' \<Longrightarrow> quoted_in els E'"
  unfolding quoted_in_def by (meson subsetD)

lemma quoted_in_Nil: "quoted_in [] E"
  by (simp add: quoted_in_def)

lemma quoted_in_append: "quoted_in xs E \<Longrightarrow> quoted_in ys E \<Longrightarrow> quoted_in (xs @ ys) E"
  unfolding quoted_in_def by auto

lemma records_of_self: "tw \<in> set (records_of tw)"
  by (subst records_of.simps) simp

lemma resolve_key_in:
  assumes "resolve tw ids = Some (ids', els)" "key_of tw = Inr k"
  shows "k \<in> ids'"
proof (cases "k \<in> ids")
  case True
  with resolve_creators [OF assms(1)] show ?thesis by (auto simp: creators_def)
next
  case False
  note req = resolve.simps [of tw ids]
  show ?thesis
  proof (cases "has_key tw ''retweeted_status''")
    case True
    with req assms False obtain t where "resolve t (insert k ids) = Some (ids', els)"
      by (auto split: sum.splits)
    from resolve_creators [OF this] show ?thesis by (auto simp: creators_def)
  next
    case nrt: False
    show ?thesis
    proof (cases "has_key tw ''quoted_status''")
      case False
      with req assms \<open>k \<notin> ids\<close> nrt show ?thesis by (auto split: sum.splits)
    next
      case True
      with req assms \<open>k \<notin> ids\<close> nrt obtain q ts where "resolve q (insert k ids) = Some (ids', ts)"
        by (auto split: sum.splits option.splits)
      from resolve_creators [OF this] show ?thesis by (auto simp: creators_def)
    qed
  qed
qed

lemma quoted_attr:
  assumes "tweet_elem tw = Inr t"
  shows "attrib_get t ''quoted_from'' = Inr qi \<longleftrightarrow> quoted_from tw = Inr (Some qi)"
proof -
  from tweet_elem_fields [OF assms] obtain i c qf bt d where
    qf: "quoted_from tw = Inr qf" and
    t: "t = Elem ''tweet''
                 ([(''id'', i), (''created_at'', c)] @
                  (case qf of None \<Rightarrow> [] | Some qi \<Rightarrow> [(''quoted_from'', qi)]))
                 None [Elem ''body'' [] bt [], d]"
    by blast
  show ?thesis
  proof (cases qf)
    case None
    with qf t show ?thesis by (simp add: attrib_get_def)
  next
    case (Some q)
    with qf t show ?thesis by (simp add: attrib_get_def)
  qed
qed

lemma resolve_quoted:
  "resolve tw ids = Some (ids', els) \<Longrightarrow> set (records_of tw) \<subseteq> R \<Longrightarrow>
   ids_agree rs \<Longrightarrow> quotes_no_retweet rs \<Longrightarrow> R = set rs \<Longrightarrow> seen_inv R ids E \<Longrightarrow>
     seen_inv R ids' (E @ els) \<and> quoted_in els (E @ els)"
proof (induction tw ids arbitrary: ids' els E rule: resolve.induct)
  case (1 tw ids)
  note req = resolve.simps [of tw ids]
  note rec = records_of.simps [of tw]
  note res = "1.prems"(1)
  note sub = "1.prems"(2)
  note agree = "1.prems"(3)
  note nort = "1.prems"(4)
  note R = "1.prems"(5)
  note inv = "1.prems"(6)
  from sub records_of_self have twR: "tw \<in> R" by auto
  show ?case
  proof (cases "key_of tw")
    case (Inl e)
    with req res show ?thesis by simp
  next
    case (Inr k)
    note k = this
    show ?thesis
    proof (cases "k \<in> ids")
      case True
      with req k res have "ids' = ids" "els = []" by simp_all
      with inv show ?thesis by (simp add: quoted_in_Nil)
    next
      case False
      note fresh = this
      show ?thesis
      proof (cases "has_key tw ''retweeted_status''")
        case True
        note rt = this
        show ?thesis
        proof (cases "getitem tw ''retweeted_status''")
          case (Inl e)
          with req k fresh rt res show ?thesis by simp
        next
          case (Inr t)
          with req k fresh rt res have r: "resolve t (insert k ids) = Some (ids', els)" by simp
          from rec rt Inr sub have s: "set (records_of t) \<subseteq> R" by auto
          from seen_inv_insert_retweet [OF inv twR k rt]
          have "seen_inv R (insert k ids) E" .
          from "1.IH"(1) [OF k fresh rt Inr r s agree nort R this] show ?thesis .
        qed
      next
        case False
        note nrt = this
        show ?thesis
        proof (cases "tweet_elem tw")
          case (Inl e)
          with req k fresh nrt res show ?thesis by simp
        next
          case (Inr t)
          note t = this
          from seen_inv_insert_elem [OF inv twR k t]
          have inv1: "seen_inv R (insert k ids) (E @ [t])" .
          show ?thesis
          proof (cases "has_key tw ''quoted_status''")
            case False
            with req k fresh nrt t res have e: "ids' = insert k ids" "els = [t]" by simp_all
            from False have "quoted_from tw = Inr None" by (simp add: quoted_from_def)
            with quoted_attr [OF t] have "quoted_in [t] (E @ [t])"
              by (simp add: quoted_in_def)
            with inv1 e show ?thesis by simp
          next
            case True
            note qs = this
            show ?thesis
            proof (cases "getitem tw ''quoted_status''")
              case (Inl e)
              with req k fresh nrt t qs res show ?thesis by simp
            next
              case (Inr q)
              note q = this
              with req k fresh nrt t qs res obtain ts where
                r: "resolve q (insert k ids) = Some (ids', ts)" and els: "els = t # ts"
                by (auto split: option.splits)
              from rec nrt qs q sub have s: "set (records_of q) \<subseteq> R" by auto
              from s records_of_self have qR: "q \<in> R" by auto
              from "1.IH"(2) [OF k fresh nrt t qs q r s agree nort R inv1]
              have inv2: "seen_inv R ids' (E @ t # ts)" and qin: "quoted_in ts (E @ t # ts)"
                by simp_all
              have "quoted_in [t] (E @ t # ts)"
                unfolding quoted_in_def
              proof (intro ballI allI impI)
                fix e qi
                assume "e \<in> set [t]" and a: "attrib_get e ''quoted_from'' = Inr qi"
                then have "e = t" by simp
                with a quoted_attr [OF t] have "quoted_from tw = Inr (Some qi)" by simp
                with qs q have qi: "bind_err (getitem q ''id_str'') xml_attr = Inr qi"
                  by (auto simp: quoted_from_def bind_err_def split: sum.splits)
                from resolve_key [OF r] obtain kq where kq: "key_of q = Inr kq" by auto
                from resolve_key_in [OF r kq] have "kq \<in> ids'" .
                with inv2 obtain r0 where r0: "r0 \<in> R" "key_of r0 = Inr kq"
                  "has_key r0 ''retweeted_status'' \<or> (\<exists>e\<in>set (E @ t # ts). tweet_elem r0 = Inr e)"
                  unfolding seen_inv_def by blast
                from nort twR R have "case getitem tw ''quoted_status'' of Inl e \<Rightarrow> True
                    | Inr q \<Rightarrow> (\<forall>r\<in>set rs. has_key r ''retweeted_status'' \<longrightarrow> key_of r \<noteq> key_of q)"
                  unfolding quotes_no_retweet_def by blast
                with q have "\<forall>r\<in>set rs. has_key r ''retweeted_status'' \<longrightarrow> key_of r \<noteq> key_of q"
                  by simp
                with r0(1) R have "has_key r0 ''retweeted_status'' \<longrightarrow> key_of r0 \<noteq> key_of q"
                  by blast
                with r0 kq obtain e' where e': "e' \<in> set (E @ t # ts)" "tweet_elem r0 = Inr e'"
                  by auto
                from r0(2) kq have "key_of r0 = key_of q" by simp
                with agree r0(1) qR R have "getitem r0 ''id_str'' = getitem q ''id_str''"
                  unfolding ids_agree_def by blast
                with tweet_elem_attrib(1) [OF e'(2)] qi have "attrib_get e' ''id'' = Inr qi" by simp
                with e'(1) show "\<exists>e'\<in>set (E @ t # ts). attrib_get e' ''id'' = Inr qi" by blast
              qed
              from this qin have "quoted_in ([t] @ ts) (E @ t # ts)" by (rule quoted_in_append)
              with inv2 els show ?thesis by simp
            qed
          qed
        qed
      qed
    qed
  qed
qed

lemma resolve_all_quoted:
  "resolve_all items ids = Some (ids', els) \<Longrightarrow> set (input_records items) \<subseteq> R \<Longrightarrow>
   ids_agree rs \<Longrightarrow> quotes_no_retweet rs \<Longrightarrow> R = set rs \<Longrightarrow> seen_inv R ids E \<Longrightarrow>
     seen_inv R ids' (E @ els) \<and> quoted_in els (E @ els)"
proof (induction items ids arbitrary: ids' els E rule: resolve_all.induct)
  case (1 ids)
  then show ?case by (simp add: quoted_in_Nil)
next
  case (2 e rest ids)
  then show ?case by simp
next
  case (3 tweet rest ids)
  from "3.prems"(1) obtain ids1 ts1 ts2 where
    r1: "resolve tweet ids = Some (ids1, ts1)" and
    r2: "resolve_all rest ids1 = Some (ids', ts2)" and els: "els = ts1 @ ts2"
    by (auto split: option.splits)
  from "3.prems"(2) have s1: "set (records_of tweet) \<subseteq> R" and s2: "set (input_records rest) \<subseteq> R"
    by auto
  from resolve_quoted [OF r1 s1 "3.prems"(3,4,5,6)]
  have a: "seen_inv R ids1 (E @ ts1)" "quoted_in ts1 (E @ ts1)" by simp_all
  from "3.IH" [OF r1 refl r2 s2 "3.prems"(3,4,5) a(1)]
  have b: "seen_inv R ids' ((E @ ts1) @ ts2)" "quoted_in ts2 ((E @ ts1) @ ts2)" by simp_all
  from a(2) have "quoted_in ts1 ((E @ ts1) @ ts2)" by (rule quoted_in_mono) auto
  from this b(2) have "quoted_in (ts1 @ ts2) ((E @ ts1) @ ts2)" by (rule quoted_in_append)
  with b(1) els show ?case by simp
qed

text \<open>
  C5, as the claim states it: in every document that is written, each \<^verbatim>\<open>quoted_from\<close>
  is the \<^verbatim>\<open>id\<close> of some element. It is not in two runs that return normally. In the
  first a post quotes a record that is itself a retweet, with \<^verbatim>\<open>id_str\<close> 7: the quoting
  element carries \<^verbatim>\<open>quoted_from\<close> 7, the retweet gets no element, and the ids in the
  document are 1 and 2. In the second the quoted post 1 comes after a line with the
  same \<^verbatim>\<open>id\<close> and the \<^verbatim>\<open>id_str\<close> \<^verbatim>\<open>one\<close>: it is dropped as a duplicate, and the ids
  in the document are \<^verbatim>\<open>one\<close> and 2. In both the quoted post is in the input.
\<close>

theorem quoted_from_without_element_counterexample:
  "snd (write_xml strptime_twitter tostring_flat ''tweets.xml'' (init [Inr quotes_retweet], empty_fs)) = None
   \<and> retweet_of_a \<in> set (input_records [Inr quotes_retweet])
   \<and> getitem retweet_of_a ''id_str'' = Inr (JStr ''7'')
   \<and> map (\<lambda>e. attrib_get e ''quoted_from'')
        (children (xml_root (fst (fst (write_xml strptime_twitter tostring_flat ''tweets.xml''
           (init [Inr quotes_retweet], empty_fs)))))) = [Inl (KeyError ''quoted_from''), Inr ''7'']
   \<and> map (\<lambda>e. attrib_get e ''id'')
        (children (xml_root (fst (fst (write_xml strptime_twitter tostring_flat ''tweets.xml''
           (init [Inr quotes_retweet], empty_fs)))))) = [Inr ''1'', Inr ''2'']
   \<and> \<not> quoted_ids_present
        (children (xml_root (fst (fst (write_xml strptime_twitter tostring_flat ''tweets.xml''
           (init [Inr quotes_retweet], empty_fs))))))
   \<and> snd (write_xml strptime_twitter tostring_flat ''tweets.xml''
           (init [Inr same_id_other_str, Inr post_b], empty_fs)) = None
   \<and> post_a \<in> set (input_records [Inr same_id_other_str, Inr post_b])
   \<and> map (\<lambda>e. attrib_get e ''quoted_from'')
        (children (xml_root (fst (fst (write_xml strptime_twitter tostring_flat ''tweets.xml''
           (init [Inr same_id_other_str, Inr post_b], empty_fs)))))) = [Inl (KeyError ''quoted_from''), Inr ''1'']
   \<and> map (\<lambda>e. attrib_get e ''id'')
        (children (xml_root (fst (fst (write_xml strptime_twitter tostring_flat ''tweets.xml''
           (init [Inr same_id_other_str, Inr post_b], empty_fs)))))) = [Inr ''one'', Inr ''2'']
   \<and> \<not> quoted_ids_present
        (children (xml_root (fst (fst (write_xml strptime_twitter tostring_flat ''tweets.xml''
           (init [Inr same_id_other_str, Inr post_b], empty_fs))))))"
  by code_simp

text \<open>
  C5, amended: for an input where records with the same \<^verbatim>\<open>id\<close> have the same
  \<^verbatim>\<open>id_str\<close> and no record with a \<^verbatim>\<open>retweeted_status\<close> has the \<^verbatim>\<open>id\<close> of a quoted
  post, in the document a fresh collection writes every \<^verbatim>\<open>quoted_from\<close> attribute is
  the \<^verbatim>\<open>id\<close> attribute of some element of the same document.
\<close>

theorem quoted_from_has_element:
  assumes "snd (write_xml strptime tostring output (init input, fs)) = None"
    and "ids_agree (input_records input)"
    and "quotes_no_retweet (input_records input)"
  shows "quoted_ids_present
           (children (xml_root (fst (fst (write_xml strptime tostring output (init input, fs))))))"
proof -
  let ?cs = "children (xml_root (fst (fst (write_xml strptime tostring output (init input, fs)))))"
  from write_xml_init_ok [OF assms(1)] obtain ids els where
    r: "resolve_all input {} = Some (ids, els)" and
    s: "sort_tweets strptime els = Inr ?cs" by auto
  have "seen_inv (set (input_records input)) {} []" by (simp add: seen_inv_def)
  from resolve_all_quoted [OF r subset_refl assms(2,3) refl this]
  have q: "quoted_in els els" by simp
  from sort_tweets_sorted(1) [OF s] have "set ?cs = set els" by (metis set_mset_mset)
  with q have "quoted_in ?cs ?cs" by (simp add: quoted_in_def)
  then show ?thesis
    unfolding quoted_in_def quoted_ids_present_def
    by (intro ballI) (simp split: sum.splits)
qed

text \<open>
  Post 2 quotes post 1, and a retweet of post 1 follows on the next line: the document
  has the elements 1 and 2, and the \<^verbatim>\<open>quoted_from\<close> of 2 is 1.
\<close>

theorem quoted_from_has_element_witness:
  "snd (write_xml strptime_twitter tostring_flat ''tweets.xml''
          (init [Inr post_b, Inr retweet_of_a], empty_fs)) = None
   \<and> ids_agree (input_records [Inr post_b, Inr retweet_of_a])
   \<and> quotes_no_retweet (input_records [Inr post_b, Inr retweet_of_a])
   \<and> quoted_ids_present
        (children (xml_root (fst (fst (write_xml strptime_twitter tostring_flat ''tweets.xml''
           (init [Inr post_b, Inr retweet_of_a], empty_fs))))))
   \<and> map (\<lambda>e. attrib_get e ''quoted_from'')
        (children (xml_root (fst (fst (write_xml strptime_twitter tostring_flat ''tweets.xml''
           (init [Inr post_b, Inr retweet_of_a], empty_fs)))))) = [Inl (KeyError ''quoted_from''), Inr ''1'']
   \<and> map (\<lambda>e. attrib_get e ''id'')
        (children (xml_root (fst (fst (write_xml strptime_twitter tostring_flat ''tweets.xml''
           (init [Inr post_b, Inr retweet_of_a], empty_fs)))))) = [Inr ''1'', Inr ''2'']"
proof -
  have 1: "snd (write_xml strptime_twitter tostring_flat ''tweets.xml''
          (init [Inr post_b, Inr retweet_of_a], empty_fs)) = None" by code_simp
  have 2: "ids_agree (input_records [Inr post_b, Inr retweet_of_a])" by code_simp
  have 3: "quotes_no_retweet (input_records [Inr post_b, Inr retweet_of_a])" by code_simp
  have 4: "map (\<lambda>e. attrib_get e ''quoted_from'')
        (children (xml_root (fst (fst (write_xml strptime_twitter tostring_flat ''tweets.xml''
           (init [Inr post_b, Inr retweet_of_a], empty_fs)))))) = [Inl (KeyError ''quoted_from''), Inr ''1'']"
    by code_simp
  have 5: "map (\<lambda>e. attrib_get e ''id'')
        (children (xml_root (fst (fst (write_xml strptime_twitter tostring_flat ''tweets.xml''
           (init [Inr post_b, Inr retweet_of_a], empty_fs)))))) = [Inr ''1'', Inr ''2'']"
    by code_simp
  from 1 2 3 4 5 quoted_from_has_element [OF 1 2 3] show ?thesis by simp
qed

section \<open>Errors and the output file\<close>

text \<open>
  C2. When \<^verbatim>\<open>write_xml\<close> raises, whatever the cause (a line that does not parse, a
  record without a field the code reads, a \<^verbatim>\<open>created_at\<close> that \<^verbatim>\<open>strptime\<close> rejects),
  the file system is as it was before the call: no file has been created or changed.
  The file is opened and written only after the loop over the records and the sort
  have both finished.
\<close>

theorem write_xml_error_keeps_files:
  assumes "snd (write_xml strptime tostring output (st, fs)) \<noteq> None"
  shows "snd (fst (write_xml strptime tostring output (st, fs))) = fs"
  using assms
  by (auto simp: write_xml_def Let_def split: prod.splits option.splits sum.splits if_splits)

text \<open>
  Three runs that raise and leave the file system alone: a malformed second line, a
  second record without \<^verbatim>\<open>truncated\<close>, a second record with an ISO timestamp.
\<close>

theorem write_xml_error_keeps_files_witness:
  "snd (write_xml strptime_twitter tostring_flat ''tweets.xml''
          (init [Inr post_a, Inl JSONDecodeError], empty_fs)) \<noteq> None
   \<and> snd (fst (write_xml strptime_twitter tostring_flat ''tweets.xml''
          (init [Inr post_a, Inl JSONDecodeError], empty_fs))) = empty_fs
   \<and> snd (write_xml strptime_twitter tostring_flat ''tweets.xml''
          (init [Inr post_a, Inr no_text], empty_fs)) \<noteq> None
   \<and> snd (fst (write_xml strptime_twitter tostring_flat ''tweets.xml''
          (init [Inr post_a, Inr no_text], empty_fs))) = empty_fs
   \<and> snd (write_xml strptime_twitter tostring_flat ''tweets.xml''
          (init [Inr post_a, Inr bad_date], empty_fs)) \<noteq> None
   \<and> snd (fst (write_xml strptime_twitter tostring_flat ''tweets.xml''
          (init [Inr post_a, Inr bad_date], empty_fs))) = empty_fs"
proof -
  have 1: "snd (write_xml strptime_twitter tostring_flat ''tweets.xml''
                  (init [Inr post_a, Inl JSONDecodeError], empty_fs)) \<noteq> None"
    by code_simp
  have 2: "snd (write_xml strptime_twitter tostring_flat ''tweets.xml''
                  (init [Inr post_a, Inr no_text], empty_fs)) \<noteq> None"
    by code_simp
  have 3: "snd (write_xml strptime_twitter tostring_flat ''tweets.xml''
                  (init [Inr post_a, Inr bad_date], empty_fs)) \<noteq> None"
    by code_simp
  from 1 2 3 write_xml_error_keeps_files [OF 1] write_xml_error_keeps_files [OF 2]
    write_xml_error_keeps_files [OF 3]
  show ?thesis by simp
qed

section \<open>Reusing a collection\<close>

lemma for_tweets_frame:
  "for_tweets items st = (st', r) \<Longrightarrow>
     xml_root st' = xml_root st \<and> tweet_ids st \<subseteq> tweet_ids st' \<and>
     (\<exists>new. output_tweets st' = output_tweets st @ new)"
proof (induction items st arbitrary: st' r rule: for_tweets.induct)
  case (1 st)
  then show ?case by auto
next
  case (2 e rest st)
  then show ?case by auto
next
  case (3 tweet rest st)
  obtain st1 r1 where a: "add_tweet tweet (st\<lparr>parsed_tweets := rest\<rparr>) = (st1, r1)"
    by (cases "add_tweet tweet (st\<lparr>parsed_tweets := rest\<rparr>)") auto
  note f = add_tweet_frame [OF a]
  show ?case
  proof (cases r1)
    case None
    with a "3.prems" have "for_tweets rest st1 = (st', r)" by simp
    from "3.IH" [OF a [symmetric] None this] f show ?thesis by auto
  next
    case (Some e)
    with a "3.prems" have "st' = st1" by simp
    with f show ?thesis by auto
  qed
qed

text \<open>
  C8, as the claim states it: a call of \<^verbatim>\<open>write_xml\<close> starts from an empty id set and an
  empty list, so that what it does cannot depend on the ids seen before. It does: after
  a call that raised on its second record, the ids 1 and 3 are still in the set and
  the third record is still in the generator; the next call drops that record as a
  duplicate and writes a document without any tweet, where a call starting from an
  empty set writes one tweet.
\<close>

theorem write_xml_keeps_seen_ids_counterexample:
  "tweet_ids after_failed_call = {JInt 1, JInt 3}
   \<and> parsed_tweets after_failed_call = [Inr post_a]
   \<and> snd (write_xml strptime_twitter tostring_flat ''tweets.xml'' (after_failed_call, empty_fs)) = None
   \<and> children (xml_root (fst (fst (write_xml strptime_twitter tostring_flat ''tweets.xml''
         (after_failed_call, empty_fs))))) = []
   \<and> length (children (xml_root (fst (fst (write_xml strptime_twitter tostring_flat ''tweets.xml''
         (after_failed_call\<lparr>tweet_ids := {}, output_tweets := []\<rparr>, empty_fs)))))) = 1"
  by code_simp

text \<open>
  C8, amended: a call of \<^verbatim>\<open>write_xml\<close> clears the list of elements, so what it does
  is what it would do on the collection with an empty list; the set of seen ids is not
  cleared, and every id in it before the call is in it after the call.
\<close>

theorem write_xml_clears_list_only:
  "write_xml strptime tostring output (st, fs) =
     write_xml strptime tostring output (st\<lparr>output_tweets := []\<rparr>, fs)
   \<and> tweet_ids st \<subseteq> tweet_ids (fst (fst (write_xml strptime tostring output (st, fs))))"
proof -
  obtain st1 r1 where l: "for_tweets (parsed_tweets st) (st\<lparr>output_tweets := []\<rparr>) = (st1, r1)"
    by (cases "for_tweets (parsed_tweets st) (st\<lparr>output_tweets := []\<rparr>)") auto
  from for_tweets_frame [OF l] have "tweet_ids st \<subseteq> tweet_ids st1" by simp
  with l show ?thesis
    by (auto simp: write_xml_def Let_def split: option.splits sum.splits)
qed

text \<open>
  C10. \<^verbatim>\<open>write_xml\<close> never resets the root: after a call that returns normally the
  root is the root of before with the elements of this call, in their sorted order,
  appended after the children it already had, and that root is what the file holds.
\<close>

theorem write_xml_keeps_root:
  assumes "snd (write_xml strptime tostring output (st, fs)) = None"
  shows "xml_root (fst (fst (write_xml strptime tostring output (st, fs)))) =
           Elem (tag (xml_root st)) (attrib (xml_root st)) (etext (xml_root st))
             (children (xml_root st) @
              output_tweets (fst (fst (write_xml strptime tostring output (st, fs)))))
         \<and> files (snd (fst (write_xml strptime tostring output (st, fs)))) output =
           Some (tostring (xml_root (fst (fst (write_xml strptime tostring output (st, fs))))))"
proof -
  obtain st1 r1 where l: "for_tweets (parsed_tweets st) (st\<lparr>output_tweets := []\<rparr>) = (st1, r1)"
    by (cases "for_tweets (parsed_tweets st) (st\<lparr>output_tweets := []\<rparr>)") auto
  from for_tweets_frame [OF l] have "xml_root st1 = xml_root st" by simp
  with l assms show ?thesis
    by (auto simp: write_xml_def Let_def split: option.splits sum.splits if_splits)
qed

text \<open>
  A second call on the collection of \<open>first_build\<close>, to another file: the generator is
  empty, nothing is added, and the document written again holds the two tweets of the
  first call.
\<close>

theorem write_xml_keeps_root_witness:
  "snd (write_xml strptime_twitter tostring_flat ''again.xml'' (fst first_build, snd first_build)) = None
   \<and> length (children (xml_root (fst first_build))) = 2
   \<and> xml_root (fst (fst (write_xml strptime_twitter tostring_flat ''again.xml''
        (fst first_build, snd first_build)))) =
      Elem (tag (xml_root (fst first_build))) (attrib (xml_root (fst first_build)))
        (etext (xml_root (fst first_build)))
        (children (xml_root (fst first_build)) @
         output_tweets (fst (fst (write_xml strptime_twitter tostring_flat ''again.xml''
           (fst first_build, snd first_build)))))
   \<and> files (snd (fst (write_xml strptime_twitter tostring_flat ''again.xml''
        (fst first_build, snd first_build)))) ''again.xml'' =
      Some (tostring_flat (xml_root (fst (fst (write_xml strptime_twitter tostring_flat ''again.xml''
        (fst first_build, snd first_build))))))"
proof -
  have h: "snd (write_xml strptime_twitter tostring_flat ''again.xml''
                  (fst first_build, snd first_build)) = None"
    by code_simp
  have n: "length (children (xml_root (fst first_build))) = 2"
    by code_simp
  from h n write_xml_keeps_root [OF h] show ?thesis by simp
qed

section \<open>The word count\<close>

lemma map_err_body_words:
  "map_err body_words bs =
     (if list_all (\<lambda>b. etext b \<noteq> None) bs then Inr (map body_tokens bs) else Inl AttributeError)"
  by (induction bs) (auto simp: body_words_def body_tokens_def split: option.splits)

text \<open>
  C7, as the claim states it: the count is the total of the specification for every
  document. It is not where a body has no text, which is how lxml reads an empty
  \<^verbatim>\<open><body/>\<close>: the total counts that body as zero and is 3, the code raises.
\<close>

theorem word_count_absent_text_counterexample:
  "spec_word_total empty_body_doc = 3
   \<and> word_count empty_body_doc = Inl AttributeError
   \<and> word_count empty_body_doc \<noteq> Inr (spec_word_total empty_body_doc)"
  by code_simp

text \<open>
  C7, amended: where every body node of the document has text, the count is the sum
  over the body nodes anywhere in the document of the number of whitespace-separated
  tokens of the text (a text of whitespace only counts zero); where some body node has
  no text, the code raises \<^verbatim>\<open>AttributeError\<close> and there is no count.
\<close>

theorem word_count_total:
  "word_count doc =
     (if list_all (\<lambda>b. etext b \<noteq> None) (bodies doc) then Inr (spec_word_total doc)
      else Inl AttributeError)"
  by (simp add: word_count_def count_words_def bodies_def spec_word_total_def map_err_body_words)

theorem word_count_total_witness:
  "list_all (\<lambda>b. etext b \<noteq> None) (bodies two_body_doc) \<and> word_count two_body_doc = Inr 5
   \<and> \<not> list_all (\<lambda>b. etext b \<noteq> None) (bodies empty_body_doc)
   \<and> word_count empty_body_doc = Inl AttributeError"
proof -
  have 1: "list_all (\<lambda>b. etext b \<noteq> None) (bodies two_body_doc)" by code_simp
  have 2: "spec_word_total two_body_doc = 5" by code_simp
  have 3: "\<not> list_all (\<lambda>b. etext b \<noteq> None) (bodies empty_body_doc)" by code_simp
  from word_count_total [of two_body_doc] word_count_total [of empty_body_doc] 1 2 3
  show ?thesis by simp
qed

end
